theory Spec2Isabelle
  imports Complex_Main
begin

section \<open>JavaScript numbers\<close>

text \<open>
  The numeric fields of the program hold JavaScript values that are either \<open>null\<close> (the
  schema default of \<open>restingY\<close>, \<open>surfaceY\<close> and \<open>fullPressDistance\<close>), \<open>NaN\<close>, or a
  number. Numbers are idealised as exact reals: rounding and the infinities of IEEE doubles
  are not modelled. \<open>ToNumber\<close> is the coercion JavaScript applies to the operands of
  \<open>+\<close>, \<open>-\<close>, \<open>*\<close> and of the relational operators: \<open>null\<close> becomes \<open>0\<close>, and every
  operation with a \<open>NaN\<close> operand yields \<open>NaN\<close> (arithmetic) or \<open>false\<close> (comparison).
\<close>

datatype jsnum = Null | NaN | Num real

fun ToNumber :: "jsnum \<Rightarrow> real option" where
  "ToNumber Null = Some 0"
| "ToNumber NaN = None"
| "ToNumber (Num r) = Some r"

definition js_arith :: "(real \<Rightarrow> real \<Rightarrow> real) \<Rightarrow> jsnum \<Rightarrow> jsnum \<Rightarrow> jsnum" where
  "js_arith f a b =
     (case ToNumber a of None \<Rightarrow> NaN
      | Some u \<Rightarrow> (case ToNumber b of None \<Rightarrow> NaN | Some v \<Rightarrow> Num (f u v)))"

definition js_compare :: "(real \<Rightarrow> real \<Rightarrow> bool) \<Rightarrow> jsnum \<Rightarrow> jsnum \<Rightarrow> bool" where
  "js_compare f a b =
     (case ToNumber a of None \<Rightarrow> False
      | Some u \<Rightarrow> (case ToNumber b of None \<Rightarrow> False | Some v \<Rightarrow> f u v))"

definition js_add :: "jsnum \<Rightarrow> jsnum \<Rightarrow> jsnum" where
  "js_add = js_arith (+)"

definition js_sub :: "jsnum \<Rightarrow> jsnum \<Rightarrow> jsnum" where
  "js_sub = js_arith (-)"

definition js_mul :: "jsnum \<Rightarrow> jsnum \<Rightarrow> jsnum" where
  "js_mul = js_arith (*)"

definition js_lt :: "jsnum \<Rightarrow> jsnum \<Rightarrow> bool" where
  "js_lt = js_compare (<)"

definition js_le :: "jsnum \<Rightarrow> jsnum \<Rightarrow> bool" where
  "js_le = js_compare (\<le>)"

definition js_gt :: "jsnum \<Rightarrow> jsnum \<Rightarrow> bool" where
  "js_gt = js_compare (>)"

text \<open>
  \<open>Math.max( pressingDistances )\<close> passes the array itself as the single argument.
  \<open>Math.max\<close> coerces that argument with \<open>ToNumber\<close>, which goes through the array's
  string form (the elements joined by commas): the empty array gives \<open>""\<close> and so \<open>0\<close>, a
  one-element array gives its element back, and an array of two or more elements gives a
  string with a comma in it, which is not a numeric literal: \<open>NaN\<close>.
\<close>

fun Math_max :: "jsnum list \<Rightarrow> jsnum" where
  "Math_max [] = Num 0"
| "Math_max [d] = (case ToNumber d of None \<Rightarrow> NaN | Some u \<Rightarrow> Num u)"
| "Math_max (d # e # ds) = NaN"

section \<open>Components and entities\<close>

record vector3 =
  vec_x :: jsnum
  vec_y :: jsnum
  vec_z :: jsnum

text \<open>The fields of a \<open>THREE.Object3D\<close> that the systems read or write.\<close>

record object3d =
  position :: vector3
  visible :: bool

datatype bstate = resting | pressed | fully_pressed | recovering

text \<open>The two \<open>THREE.Audio\<close> objects that \<open>ButtonSystem\<close> creates, once.\<close>

datatype sound = buttonPressSound | buttonReleaseSound

text \<open>The callbacks bound to \<open>action\<close>: the schema default and the four of \<open>init\<close>.\<close>

datatype callback = noAction | obAction | pbAction | rbAction | ebAction

record button =
  currState :: bstate
  prevState :: bstate
  pressSound :: "sound option"
  releaseSound :: "sound option"
  restingY :: jsnum
  surfaceY :: jsnum
  recoverySpeed :: jsnum
  fullPressDistance :: jsnum
  action :: callback

text \<open>
  An entity with the components it may carry. A data component is \<open>None\<close> when the entity
  does not have it; a tag component is a flag. Every entity of the program owns its own
  scene object, so the object is held in the \<open>Object3D\<close> component itself. \<open>ident\<close> is the
  entity's \<open>id\<close>.
\<close>

record entity =
  ident :: nat
  Object3D :: "object3d option"
  Button :: "button option"
  Pressable :: bool
  HandsInstructionText :: bool
  OffsetFromCamera :: "vector3 option"
  NeedCalibration :: bool

text \<open>Reading a property of \<open>undefined\<close> throws.\<close>

datatype error = TypeError

text \<open>What a system does to the outside: it plays a sound or calls a callback.\<close>

datatype event = Play sound | Call callback

text \<open>
  \<open>results.forEach\<close> over the entities of a query, for a callback that leaves the query
  as it is; the callback's effects are collected in order, and an exception ends the
  iteration.
\<close>

fun forEach :: "('a \<Rightarrow> error + 'a \<times> event list) \<Rightarrow> 'a list \<Rightarrow> error + 'a list \<times> event list" where
  "forEach f [] = Inr ([], [])"
| "forEach f (e # es) =
     (case f e of Inl err \<Rightarrow> Inl err
      | Inr (e', ev) \<Rightarrow>
          (case forEach f es of Inl err \<Rightarrow> Inl err
           | Inr (es', evs) \<Rightarrow> Inr (e' # es', ev @ evs)))"

text \<open>An entity outside the query is not visited.\<close>

definition query :: "(entity \<Rightarrow> bool) \<Rightarrow> (entity \<Rightarrow> error + entity \<times> event list) \<Rightarrow>
    entity \<Rightarrow> error + entity \<times> event list" where
  "query q f e = (if q e then f e else Inr (e, []))"

text \<open>
  \<open>results.forEach\<close> for a callback that may take the entity it is called on out of the
  query \<open>q\<close>. \<open>results\<close> is the query's own array, in the order of the world's entities, and
  removing the component that the query asks for splices the entity out of that array at
  once: the entities behind it move up by one, and \<open>forEach\<close>, going on to the next index,
  passes over the entity that has moved into the index it has just visited. \<open>skip\<close> says
  that the next entity of the query is passed over in this way; the iteration starts with
  \<open>skip = False\<close>.
\<close>

fun forEach_live :: "(entity \<Rightarrow> bool) \<Rightarrow> (entity \<Rightarrow> error + entity \<times> event list) \<Rightarrow> bool \<Rightarrow>
    entity list \<Rightarrow> error + entity list \<times> event list" where
  "forEach_live q f skip [] = Inr ([], [])"
| "forEach_live q f skip (e # es) =
     (if \<not> q e then
        (case forEach_live q f skip es of Inl err \<Rightarrow> Inl err
         | Inr (es', evs) \<Rightarrow> Inr (e # es', evs))
      else if skip then
        (case forEach_live q f False es of Inl err \<Rightarrow> Inl err
         | Inr (es', evs) \<Rightarrow> Inr (e # es', evs))
      else
        (case f e of Inl err \<Rightarrow> Inl err
         | Inr (e', ev) \<Rightarrow>
             (case forEach_live q f (\<not> q e') es of Inl err \<Rightarrow> Inl err
              | Inr (es', evs) \<Rightarrow> Inr (e' # es', ev @ evs))))"

definition set_y :: "jsnum \<Rightarrow> object3d \<Rightarrow> object3d" where
  "set_y v ob = ob\<lparr>position := (position ob)\<lparr>vec_y := v\<rparr>\<rparr>"

section \<open>FingerInputSystem\<close>

text \<open>
  A hand, as \<open>FingerInputSystem\<close> sees it in one frame: for the object of the entity with a
  given \<open>id\<close>, \<open>None\<close> when the hand is null or \<open>intersectBoxObject\<close> is false, and
  \<open>Some ly\<close> when it intersects, \<open>ly\<close> being \<open>object.worldToLocal( pressingPosition ).y\<close>.
\<close>

type_synonym hand = "nat \<Rightarrow> jsnum option"

definition pressingDistances :: "hand list \<Rightarrow> nat \<Rightarrow> button \<Rightarrow> jsnum list" where
  "pressingDistances hs i b =
     concat (map (\<lambda>h. case h i of None \<Rightarrow> [] | Some ly \<Rightarrow> [js_sub (surfaceY b) ly]) hs)"

definition finger_press :: "jsnum list \<Rightarrow> jsnum \<Rightarrow> button \<Rightarrow> object3d \<Rightarrow> button \<times> object3d" where
  "finger_press ds dt b ob =
     (if length ds = 0 then
        (if js_lt (vec_y (position ob)) (restingY b)
         then (b\<lparr>currState := recovering\<rparr>,
               set_y (js_add (vec_y (position ob)) (js_mul (recoverySpeed b) dt)) ob)
         else (b\<lparr>currState := resting\<rparr>, set_y (restingY b) ob))
      else
        (let pressingDistance = Math_max ds;
             ob1 = (if js_gt pressingDistance (Num 0)
                    then set_y (js_sub (vec_y (position ob)) pressingDistance) ob else ob)
         in if js_le (vec_y (position ob1)) (js_sub (restingY b) (fullPressDistance b))
            then (b\<lparr>currState := fully_pressed\<rparr>,
                  set_y (js_sub (restingY b) (fullPressDistance b)) ob1)
            else (b\<lparr>currState := pressed\<rparr>, ob1)))"

text \<open>The body of the \<open>forEach\<close> of \<open>FingerInputSystem.execute\<close>.\<close>

definition finger_entity :: "hand list \<Rightarrow> jsnum \<Rightarrow> entity \<Rightarrow> error + entity \<times> event list" where
  "finger_entity hs dt e =
     (case Object3D e of None \<Rightarrow> Inl TypeError
      | Some ob \<Rightarrow>
          (case Button e of None \<Rightarrow> Inl TypeError
           | Some b \<Rightarrow>
               (let (b', ob') = finger_press (pressingDistances hs (ident e) b) dt b ob
                in Inr (e\<lparr>Object3D := Some ob', Button := Some b'\<rparr>, []))))"

section \<open>ButtonSystem\<close>

text \<open>
  The body of the \<open>forEach\<close> of \<open>ButtonSystem.execute\<close>. Its first two arguments are the
  locals \<open>buttonPressSound\<close> and \<open>buttonReleaseSound\<close>, which are undefined (\<open>None\<close>) except
  in the one frame that creates the audio objects.
\<close>

definition button_entity ::
    "sound option \<Rightarrow> sound option \<Rightarrow> entity \<Rightarrow> error + entity \<times> event list" where
  "button_entity bps brs e =
     (case Object3D e of None \<Rightarrow> Inl TypeError
      | Some ob \<Rightarrow>
          (case Button e of None \<Rightarrow> Inl TypeError
           | Some b \<Rightarrow>
               (let b1 = (if restingY b = Null then b\<lparr>restingY := vec_y (position ob)\<rparr> else b);
                    b2 = (case bps of None \<Rightarrow> b1 | Some s \<Rightarrow> b1\<lparr>pressSound := Some s\<rparr>);
                    b3 = (case brs of None \<Rightarrow> b2 | Some s \<Rightarrow> b2\<lparr>releaseSound := Some s\<rparr>);
                    ev1 = (if currState b3 = fully_pressed \<and> prevState b3 \<noteq> fully_pressed
                           then (case pressSound b3 of None \<Rightarrow> [] | Some s \<Rightarrow> [Play s])
                                @ [Call (action b3)]
                           else []);
                    ev2 = (if currState b3 = recovering \<and> prevState b3 \<noteq> recovering
                           then (case releaseSound b3 of None \<Rightarrow> [] | Some s \<Rightarrow> [Play s])
                           else [])
                in Inr (e\<lparr>Button := Some (b3\<lparr>prevState := currState b3, currState := resting\<rparr>)\<rparr>,
                        ev1 @ ev2))))"

section \<open>CalibrationSystem\<close>

text \<open>
  The body of the \<open>forEach\<close> of \<open>CalibrationSystem.execute\<close>; \<open>sess\<close> is whether
  \<open>renderer.xr.getSession()\<close> is there, \<open>cam\<close> the position of the XR camera.
\<close>

definition calibrate_entity :: "bool \<Rightarrow> vector3 \<Rightarrow> entity \<Rightarrow> error + entity \<times> event list" where
  "calibrate_entity sess cam e =
     (if sess then
        (case Object3D e of None \<Rightarrow> Inl TypeError
         | Some ob \<Rightarrow>
             (case OffsetFromCamera e of None \<Rightarrow> Inl TypeError
              | Some off \<Rightarrow>
                  Inr (e\<lparr>Object3D := Some (ob\<lparr>position := (position ob)
                             \<lparr>vec_x := js_add (vec_x cam) (vec_x off),
                              vec_y := js_add (vec_y cam) (vec_y off),
                              vec_z := js_add (vec_z cam) (vec_z off)\<rparr>\<rparr>),
                         NeedCalibration := False\<rparr>, [])))
      else Inr (e, []))"

section \<open>InstructionSystem\<close>

text \<open>The loop over \<open>this.controllers\<close>, from \<open>visible = false\<close>.\<close>

definition anyVisible :: "bool list \<Rightarrow> bool" where
  "anyVisible cs = foldl (\<lambda>v c. if c then True else v) False cs"

definition instruction_entity :: "bool \<Rightarrow> entity \<Rightarrow> error + entity \<times> event list" where
  "instruction_entity v e =
     (case Object3D e of None \<Rightarrow> Inl TypeError
      | Some ob \<Rightarrow> Inr (e\<lparr>Object3D := Some (ob\<lparr>visible := v\<rparr>)\<rparr>, []))"

section \<open>The world\<close>

datatype system = InstructionSystem | CalibrationSystem | ButtonSystem | FingerInputSystem

text \<open>
  The world: its entities, its systems in the order of their registration (the order in
  which \<open>world.execute\<close> runs them), the \<open>soundAdded\<close> flag of \<open>ButtonSystem\<close>, and the
  effects emitted so far.
\<close>

record world =
  entities :: "entity list"
  systems :: "system list"
  soundAdded :: bool
  events :: "event list"

text \<open>
  What one frame reads from outside the simulation: whether there is an XR session, the XR
  camera's position, the \<open>visible\<close> flags of the two controller grips, the hands, and the
  clock's delta.
\<close>

record frame =
  session :: bool
  xrCamera :: vector3
  controllers :: "bool list"
  hands :: "hand list"
  delta :: jsnum

definition registerSystem :: "system \<Rightarrow> world \<Rightarrow> world" where
  "registerSystem s w = w\<lparr>systems := systems w @ [s]\<rparr>"

text \<open>
  Each system's step on one entity, with its query. \<open>CalibrationSystem\<close> takes the
  entities it calibrates out of its query while it iterates, so its step reaches every
  marked entity only where no marked entity follows another in the query (as in the world
  that \<open>init\<close> builds, which has one).
\<close>

definition instruction_step :: "frame \<Rightarrow> entity \<Rightarrow> error + entity \<times> event list" where
  "instruction_step f = query HandsInstructionText (instruction_entity (anyVisible (controllers f)))"

definition calibration_step :: "frame \<Rightarrow> entity \<Rightarrow> error + entity \<times> event list" where
  "calibration_step f = query NeedCalibration (calibrate_entity (session f) (xrCamera f))"

definition button_step :: "bool \<Rightarrow> entity \<Rightarrow> error + entity \<times> event list" where
  "button_step fresh =
     query (\<lambda>e. Button e \<noteq> None)
       (button_entity (if fresh then Some buttonPressSound else None)
                      (if fresh then Some buttonReleaseSound else None))"

definition finger_step :: "frame \<Rightarrow> entity \<Rightarrow> error + entity \<times> event list" where
  "finger_step f = query Pressable (finger_entity (hands f) (delta f))"

definition over_entities ::
    "(entity \<Rightarrow> error + entity \<times> event list) \<Rightarrow> world \<Rightarrow> error + world" where
  "over_entities st w =
     (case forEach st (entities w) of Inl err \<Rightarrow> Inl err
      | Inr (es, evs) \<Rightarrow> Inr (w\<lparr>entities := es, events := events w @ evs\<rparr>))"

text \<open>
  The same for a system whose callback removes entities from its query while
  \<open>results.forEach\<close> runs over it.
\<close>

definition over_live :: "(entity \<Rightarrow> bool) \<Rightarrow> (entity \<Rightarrow> error + entity \<times> event list) \<Rightarrow>
    world \<Rightarrow> error + world" where
  "over_live q st w =
     (case forEach_live q st False (entities w) of Inl err \<Rightarrow> Inl err
      | Inr (es, evs) \<Rightarrow> Inr (w\<lparr>entities := es, events := events w @ evs\<rparr>))"

text \<open>\<open>ButtonSystem\<close> creates the sounds in the first frame that has a session.\<close>

definition fresh_sounds :: "frame \<Rightarrow> bool \<Rightarrow> bool" where
  "fresh_sounds f added = (session f \<and> \<not> added)"

fun execute_system :: "frame \<Rightarrow> system \<Rightarrow> world \<Rightarrow> error + world" where
  "execute_system f InstructionSystem w = over_entities (instruction_step f) w"
| "execute_system f CalibrationSystem w =
     over_live NeedCalibration (calibrate_entity (session f) (xrCamera f)) w"
| "execute_system f ButtonSystem w =
     over_entities (button_step (fresh_sounds f (soundAdded w)))
       (w\<lparr>soundAdded := (soundAdded w \<or> fresh_sounds f (soundAdded w))\<rparr>)"
| "execute_system f FingerInputSystem w = over_entities (finger_step f) w"

fun execute_systems :: "frame \<Rightarrow> system list \<Rightarrow> world \<Rightarrow> error + world" where
  "execute_systems f [] w = Inr w"
| "execute_systems f (s # ss) w =
     (case execute_system f s w of Inl err \<Rightarrow> Inl err | Inr w' \<Rightarrow> execute_systems f ss w')"

definition world_execute :: "frame \<Rightarrow> world \<Rightarrow> error + world" where
  "world_execute f w = execute_systems f (systems w) w"

text \<open>One system's step after another's; an exception in the first ends the frame.\<close>

definition then_run :: "(world \<Rightarrow> error + world) \<Rightarrow> (world \<Rightarrow> error + world) \<Rightarrow>
    world \<Rightarrow> error + world" where
  "then_run s t w = (case s w of Inl err \<Rightarrow> Inl err | Inr w' \<Rightarrow> t w')"

text \<open>
  The pipeline as the specification lists it, and the frame it would give.
\<close>

definition spec_pipeline :: "system list" where
  "spec_pipeline = [CalibrationSystem, ButtonSystem, FingerInputSystem, InstructionSystem]"

definition spec_world_execute :: "frame \<Rightarrow> world \<Rightarrow> error + world" where
  "spec_world_execute f w = execute_systems f spec_pipeline w"

section \<open>The world that \<open>init\<close> builds\<close>

definition vec :: "real \<Rightarrow> real \<Rightarrow> real \<Rightarrow> vector3" where
  "vec a b c = \<lparr>vec_x = Num a, vec_y = Num b, vec_z = Num c\<rparr>"

definition mesh :: "real \<Rightarrow> real \<Rightarrow> real \<Rightarrow> object3d" where
  "mesh a b c = \<lparr>position = vec a b c, visible = True\<rparr>"

text \<open>\<open>createEntity\<close>: an entity with no component.\<close>

definition createEntity :: "nat \<Rightarrow> entity" where
  "createEntity i = \<lparr>ident = i, Object3D = None, Button = None, Pressable = False,
     HandsInstructionText = False, OffsetFromCamera = None, NeedCalibration = False\<rparr>"

text \<open>The \<open>Button\<close> schema's defaults.\<close>

definition default_button :: button where
  "default_button = \<lparr>currState = resting, prevState = resting, pressSound = None,
     releaseSound = None, restingY = Null, surfaceY = Null, recoverySpeed = Num 0.4,
     fullPressDistance = Null, action = noAction\<rparr>"

definition csEntity :: entity where
  "csEntity = (createEntity 0)\<lparr>OffsetFromCamera := Some (vec 0 (- 0.4) (- 0.3)),
     NeedCalibration := True, Object3D := Some (mesh 0 1 (- 0.3))\<rparr>"

definition obEntity :: entity where
  "obEntity = (createEntity 1)\<lparr>Pressable := True, Object3D := Some (mesh (- 0.15) 0.04 0),
     Button := Some (default_button\<lparr>action := obAction, surfaceY := Num 0.05,
       fullPressDistance := Num 0.02\<rparr>)\<rparr>"

definition pbEntity :: entity where
  "pbEntity = (createEntity 2)\<lparr>Pressable := True, Object3D := Some (mesh (- 0.05) 0.04 0),
     Button := Some (default_button\<lparr>action := pbAction, surfaceY := Num 0.05,
       fullPressDistance := Num 0.02\<rparr>)\<rparr>"

definition rbEntity :: entity where
  "rbEntity = (createEntity 3)\<lparr>Pressable := True, Object3D := Some (mesh 0.05 0.04 0),
     Button := Some (default_button\<lparr>action := rbAction, surfaceY := Num 0.05,
       fullPressDistance := Num 0.02\<rparr>)\<rparr>"

definition ebEntity :: entity where
  "ebEntity = (createEntity 4)\<lparr>Pressable := True, Object3D := Some (mesh 0.15 0.04 0),
     Button := Some (default_button\<lparr>action := ebAction, surfaceY := Num 0.05,
       recoverySpeed := Num 0.2, fullPressDistance := Num 0.03\<rparr>)\<rparr>"

definition itEntity :: entity where
  "itEntity = (createEntity 5)\<lparr>HandsInstructionText := True,
     Object3D := Some (mesh 0 1.6 (- 0.6))\<rparr>"

definition init_world :: world where
  "init_world =
     (registerSystem FingerInputSystem
       (registerSystem ButtonSystem
         (registerSystem CalibrationSystem
           (registerSystem InstructionSystem
             \<lparr>entities = [], systems = [], soundAdded = False, events = []\<rparr>))))
     \<lparr>entities := [csEntity, obEntity, pbEntity, rbEntity, ebEntity, itEntity]\<rparr>"

section \<open>Frames over time\<close>

fun run_world :: "frame list \<Rightarrow> world \<Rightarrow> error + world" where
  "run_world [] w = Inr w"
| "run_world (f # fs) w =
     (case world_execute f w of Inl err \<Rightarrow> Inl err | Inr w' \<Rightarrow> run_world fs w')"

definition and_then :: "(entity \<Rightarrow> error + entity \<times> event list) \<Rightarrow>
    (entity \<Rightarrow> error + entity \<times> event list) \<Rightarrow> entity \<Rightarrow> error + entity \<times> event list" where
  "and_then s t e =
     (case s e of Inl err \<Rightarrow> Inl err
      | Inr (e1, ev1) \<Rightarrow> (case t e1 of Inl err \<Rightarrow> Inl err | Inr (e2, ev2) \<Rightarrow> Inr (e2, ev1 @ ev2)))"

text \<open>
  One frame as a single entity goes through it: the four systems in the order of their
  registration. \<open>added\<close> is \<open>soundAdded\<close> when the frame starts.
\<close>

definition entity_frame :: "frame \<Rightarrow> bool \<Rightarrow> entity \<Rightarrow> error + entity \<times> event list" where
  "entity_frame f added =
     and_then (instruction_step f)
       (and_then (calibration_step f)
         (and_then (button_step (fresh_sounds f added)) (finger_step f)))"

text \<open>
  A run of frames on one entity. The trace pairs, for each frame, the entity as the frame
  found it with the effects of that frame.
\<close>

fun run_entity :: "frame list \<Rightarrow> bool \<Rightarrow> entity \<Rightarrow> error + entity \<times> (entity \<times> event list) list" where
  "run_entity [] added e = Inr (e, [])"
| "run_entity (f # fs) added e =
     (case entity_frame f added e of Inl err \<Rightarrow> Inl err
      | Inr (e1, ev) \<Rightarrow>
          (case run_entity fs (added \<or> fresh_sounds f added) e1 of Inl err \<Rightarrow> Inl err
           | Inr (e', tr) \<Rightarrow> Inr (e', (e, ev) # tr)))"

definition state_of :: "entity \<Rightarrow> bstate" where
  "state_of e = (case Button e of None \<Rightarrow> resting | Some b \<Rightarrow> currState b)"

text \<open>
  The rising edges into state \<open>s\<close> of a sequence of states that follows state \<open>p\<close>: true
  where a contiguous run of \<open>s\<close> begins, false elsewhere.
\<close>

fun rising :: "bstate \<Rightarrow> bstate \<Rightarrow> bstate list \<Rightarrow> bool list" where
  "rising s p [] = []"
| "rising s p (c # cs) = (c = s \<and> p \<noteq> s) # rising s c cs"

section \<open>Scene navigation\<close>

definition scenes :: "string list" where
  "scenes = [''./images/centrocaldas.jpg'', ''./images/catedral.jpg'', ''./images/catt.jpg'',
     ''./images/bancolombia.jpg'', ''./images/bancobogota.jpg'', ''./images/juanvaldez.jpg'']"

text \<open>
  The scene state: \<open>currentSceneIndex\<close>, and the textures requested from the loader
  (\<open>None\<close> for \<open>scenes[index]\<close> out of range, which is \<open>undefined\<close>).
\<close>

record viewer =
  currentSceneIndex :: int
  requested :: "string option list"

text \<open>JavaScript's \<open>%\<close> on integers, for a positive divisor: the sign of the dividend.\<close>

definition js_rem :: "int \<Rightarrow> int \<Rightarrow> int" where
  "js_rem a n = (if a < 0 then - ((- a) mod n) else a mod n)"

definition loadScene :: "int \<Rightarrow> viewer \<Rightarrow> viewer" where
  "loadScene i v =
     v\<lparr>requested := requested v @
          [if 0 \<le> i \<and> i < int (length scenes) then Some (scenes ! nat i) else None]\<rparr>"

definition nextScene :: "viewer \<Rightarrow> viewer" where
  "nextScene v =
     (let v1 = v\<lparr>currentSceneIndex := js_rem (currentSceneIndex v + 1) (int (length scenes))\<rparr>
      in loadScene (currentSceneIndex v1) v1)"

definition prevScene :: "viewer \<Rightarrow> viewer" where
  "prevScene v =
     (let v1 = v\<lparr>currentSceneIndex :=
                 js_rem (currentSceneIndex v - 1 + int (length scenes)) (int (length scenes))\<rparr>
      in loadScene (currentSceneIndex v1) v1)"

section \<open>Auxiliary notions for the statements\<close>

text \<open>Whether some hand touches the object of the entity with the given \<open>id\<close>.\<close>

definition contact :: "hand list \<Rightarrow> nat \<Rightarrow> bool" where
  "contact hs i = list_ex (\<lambda>h. h i \<noteq> None) hs"

text \<open>The callbacks called and the sounds played, read off a list of effects.\<close>

fun calls :: "event list \<Rightarrow> callback list" where
  "calls [] = []"
| "calls (Call c # ev) = c # calls ev"
| "calls (Play s # ev) = calls ev"

fun plays :: "event list \<Rightarrow> sound list" where
  "plays [] = []"
| "plays (Play s # ev) = s # plays ev"
| "plays (Call c # ev) = plays ev"

text \<open>
  What \<open>ButtonSystem\<close> emits for a button found in the states of \<open>b\<close>, with the sound
  handles \<open>ps\<close> and \<open>rs\<close>: the press sound and the action on the edge into
  \<open>fully_pressed\<close>, the release sound on the edge into \<open>recovering\<close>.
\<close>

definition edge_events :: "sound option \<Rightarrow> sound option \<Rightarrow> button \<Rightarrow> event list" where
  "edge_events ps rs b =
     (if currState b = fully_pressed \<and> prevState b \<noteq> fully_pressed
      then (case ps of None \<Rightarrow> [] | Some s \<Rightarrow> [Play s]) @ [Call (action b)] else [])
     @ (if currState b = recovering \<and> prevState b \<noteq> recovering
        then (case rs of None \<Rightarrow> [] | Some s \<Rightarrow> [Play s]) else [])"

text \<open>The sound handle of a button after the binding step of \<open>ButtonSystem\<close>.\<close>

definition bound_sound :: "bool \<Rightarrow> sound \<Rightarrow> sound option \<Rightarrow> sound option" where
  "bound_sound fresh s old = (if fresh then Some s else old)"

text \<open>A step that emits no effect.\<close>

definition silent :: "(entity \<Rightarrow> error + entity \<times> event list) \<Rightarrow> bool" where
  "silent s = (\<forall>e e1 ev. s e = Inr (e1, ev) \<longrightarrow> ev = [])"

text \<open>The part of an entity that no system changes.\<close>

definition fixed_part :: "entity \<Rightarrow> nat \<times> bool \<times> bool \<times> vector3 option" where
  "fixed_part e = (ident e, Pressable e, HandsInstructionText e, OffsetFromCamera e)"

text \<open>
  The button of the scenarios: \<open>restingY = 0\<close>, \<open>surfaceY = 0.05\<close>,
  \<open>fullPressDistance = 0.02\<close>, at \<open>position.y = 0\<close>, pressable.
\<close>

definition scenario_button :: button where
  "scenario_button = default_button\<lparr>action := obAction, surfaceY := Num 0.05,
     fullPressDistance := Num 0.02, restingY := Num 0\<rparr>"

definition scenario_entity :: entity where
  "scenario_entity = (createEntity 1)\<lparr>Pressable := True, Object3D := Some (mesh 0 0 0),
     Button := Some scenario_button\<rparr>"

text \<open>A hand that touches every object, its pointer at local height \<open>ly\<close>.\<close>

definition hand_at :: "real \<Rightarrow> hand" where
  "hand_at ly = (\<lambda>i. Some (Num ly))"

text \<open>The scenario's button on its way back up, at \<open>position.y = -0.01\<close>.\<close>

definition sunk_entity :: entity where
  "sunk_entity = scenario_entity\<lparr>Object3D := Some (mesh 0 (- 0.01) 0)\<rparr>"

text \<open>
  Three frames to try things on: one with a session, the head at height 1.6, the second
  controller grip visible and no hand near a button; one in which a hand presses every
  button, its pointer 0.025 below the surface; and one without session, hands or
  visible grips.
\<close>

definition tracked_frame :: frame where
  "tracked_frame = \<lparr>session = True, xrCamera = vec 0 1.6 0, controllers = [False, True],
     hands = [\<lambda>i. None, \<lambda>i. None], delta = Num 0.016\<rparr>"

definition press_frame :: frame where
  "press_frame = \<lparr>session = True, xrCamera = vec 0 1.6 0, controllers = [True, True],
     hands = [hand_at 0.025], delta = Num 0.016\<rparr>"

definition idle_frame :: frame where
  "idle_frame = \<lparr>session = False, xrCamera = vec 0 0 0, controllers = [False, False],
     hands = [\<lambda>i. None, \<lambda>i. None], delta = Num 0.016\<rparr>"




section \<open>Basic facts\<close>

lemma js_arith_Num [simp]:
  "js_add (Num u) (Num v) = Num (u + v)"
  "js_sub (Num u) (Num v) = Num (u - v)"
  "js_mul (Num u) (Num v) = Num (u * v)"
  by (simp_all add: js_add_def js_sub_def js_mul_def js_arith_def)

lemma js_compare_Num [simp]:
  "js_lt (Num u) (Num v) = (u < v)"
  "js_le (Num u) (Num v) = (u \<le> v)"
  "js_gt (Num u) (Num v) = (u > v)"
  by (simp_all add: js_lt_def js_le_def js_gt_def js_compare_def)

lemma js_compare_NaN [simp]:
  "\<not> js_lt NaN a" "\<not> js_lt a NaN" "\<not> js_le NaN a" "\<not> js_le a NaN"
  "\<not> js_gt NaN a" "\<not> js_gt a NaN"
  by (simp_all add: js_lt_def js_le_def js_gt_def js_compare_def split: option.splits)

lemma set_y_simps [simp]:
  "vec_y (position (set_y v ob)) = v"
  "set_y v (set_y u ob) = set_y v ob"
  "visible (set_y v ob) = visible ob"
  by (simp_all add: set_y_def)

lemma set_y_same: "vec_y (position ob) = v \<Longrightarrow> set_y v ob = ob"
  by (simp add: set_y_def)

lemma pressingDistances_empty: "(pressingDistances hs i b = []) = (\<not> contact hs i)"
  by (induction hs) (auto simp: pressingDistances_def contact_def split: option.splits)

lemma Math_max_cases: "Math_max ds = NaN \<or> (\<exists>k. Math_max ds = Num k)"
  by (cases ds rule: Math_max.cases) (auto split: option.splits)

lemma anyVisible_fold: "foldl (\<lambda>v c. if c then True else v) v0 cs = (v0 \<or> (\<exists>c\<in>set cs. c))"
  by (induction cs arbitrary: v0) auto

lemma anyVisible_iff: "anyVisible cs = (\<exists>c\<in>set cs. c)"
  by (simp add: anyVisible_def anyVisible_fold)

lemma forEach_map:
  assumes "\<And>e. e \<in> set es \<Longrightarrow> st e = Inr (g e, [])"
  shows "forEach st es = Inr (map g es, [])"
  using assms by (induction es) auto

text \<open>The definitions to unfold when a frame is run on concrete data.\<close>

lemmas frame_eval = entity_frame_def and_then_def instruction_step_def calibration_step_def
      button_step_def finger_step_def query_def button_entity_def finger_entity_def
      finger_press_def pressingDistances_def fresh_sounds_def state_of_def
      scenario_entity_def scenario_button_def default_button_def createEntity_def
      press_frame_def idle_frame_def hand_at_def mesh_def vec_def set_y_def Let_def

lemmas world_eval = world_execute_def spec_world_execute_def spec_pipeline_def init_world_def
  registerSystem_def over_entities_def over_live_def instruction_step_def calibration_step_def
  button_step_def finger_step_def query_def instruction_entity_def calibrate_entity_def
  button_entity_def finger_entity_def finger_press_def pressingDistances_def fresh_sounds_def
  anyVisible_def csEntity_def obEntity_def pbEntity_def rbEntity_def ebEntity_def itEntity_def
  createEntity_def default_button_def tracked_frame_def mesh_def vec_def set_y_def Let_def

section \<open>One frame on a button entity\<close>

lemma instruction_step_keeps:
  assumes "Object3D e = Some ob"
  shows "\<exists>e1 ob1. instruction_step f e = Inr (e1, []) \<and> Object3D e1 = Some ob1
     \<and> Button e1 = Button e \<and> NeedCalibration e1 = NeedCalibration e
     \<and> fixed_part e1 = fixed_part e"
  using assms
  by (auto simp: instruction_step_def query_def instruction_entity_def fixed_part_def)

lemma calibration_step_keeps:
  assumes "Object3D e = Some ob" and "NeedCalibration e \<longrightarrow> OffsetFromCamera e \<noteq> None"
  shows "\<exists>e1 ob1. calibration_step f e = Inr (e1, []) \<and> Object3D e1 = Some ob1
     \<and> Button e1 = Button e \<and> (NeedCalibration e1 \<longrightarrow> NeedCalibration e)
     \<and> fixed_part e1 = fixed_part e"
  using assms
  by (auto simp: calibration_step_def query_def calibrate_entity_def fixed_part_def)

lemma button_step_button:
  assumes "Object3D e = Some ob" and "Button e = Some b"
  shows "button_step fresh e =
     Inr (e\<lparr>Button := Some (b\<lparr>restingY := (if restingY b = Null then vec_y (position ob) else restingY b),
                pressSound := bound_sound fresh buttonPressSound (pressSound b),
                releaseSound := bound_sound fresh buttonReleaseSound (releaseSound b),
                prevState := currState b, currState := resting\<rparr>)\<rparr>,
          edge_events (bound_sound fresh buttonPressSound (pressSound b))
                      (bound_sound fresh buttonReleaseSound (releaseSound b)) b)"
  using assms
  by (auto simp: button_step_def query_def button_entity_def edge_events_def bound_sound_def Let_def)

lemma finger_press_keeps:
  "\<exists>st. fst (finger_press ds dt b ob) = b\<lparr>currState := st\<rparr>"
  by (auto simp: finger_press_def Let_def)

lemma finger_step_keeps:
  assumes "Object3D e = Some ob" and "Button e = Some b"
  shows "\<exists>e1 ob1 st. finger_step f e = Inr (e1, []) \<and> Object3D e1 = Some ob1
     \<and> Button e1 = Some (b\<lparr>currState := st\<rparr>) \<and> NeedCalibration e1 = NeedCalibration e
     \<and> fixed_part e1 = fixed_part e"
proof (cases "Pressable e")
  case True
  obtain st where "fst (finger_press (pressingDistances (hands f) (ident e) b) (delta f) b ob) = b\<lparr>currState := st\<rparr>"
    using finger_press_keeps by blast
  with True assms show ?thesis
    by (auto simp: finger_step_def query_def finger_entity_def fixed_part_def split: prod.splits)
next
  case False
  have "b = b\<lparr>currState := currState b\<rparr>" by simp
  with False assms show ?thesis
    by (metis finger_step_def query_def)
qed

lemma entity_frame_keeps:
  assumes "Object3D e = Some ob" and "Button e = Some b"
    and "NeedCalibration e \<longrightarrow> OffsetFromCamera e \<noteq> None"
  shows "\<exists>e1 ob1 b1. entity_frame f added e =
        Inr (e1, edge_events (bound_sound (fresh_sounds f added) buttonPressSound (pressSound b))
                      (bound_sound (fresh_sounds f added) buttonReleaseSound (releaseSound b)) b)
     \<and> Object3D e1 = Some ob1 \<and> Button e1 = Some b1
     \<and> (NeedCalibration e1 \<longrightarrow> NeedCalibration e) \<and> fixed_part e1 = fixed_part e
     \<and> prevState b1 = currState b \<and> action b1 = action b
     \<and> pressSound b1 = bound_sound (fresh_sounds f added) buttonPressSound (pressSound b)
     \<and> releaseSound b1 = bound_sound (fresh_sounds f added) buttonReleaseSound (releaseSound b)"
proof -
  obtain e1 ob1 where 1: "instruction_step f e = Inr (e1, [])" and o1: "Object3D e1 = Some ob1"
    and b1: "Button e1 = Some b" and n1: "NeedCalibration e1 = NeedCalibration e"
    and f1: "fixed_part e1 = fixed_part e"
    using instruction_step_keeps[OF assms(1), of f] assms(2) by auto
  have w1: "NeedCalibration e1 \<longrightarrow> OffsetFromCamera e1 \<noteq> None"
    using assms(3) n1 f1 by (simp add: fixed_part_def)
  obtain e2 ob2 where 2: "calibration_step f e1 = Inr (e2, [])" and o2: "Object3D e2 = Some ob2"
    and b2: "Button e2 = Some b" and n2: "NeedCalibration e2 \<longrightarrow> NeedCalibration e"
    and f2: "fixed_part e2 = fixed_part e"
    using calibration_step_keeps[OF o1 w1, of f] b1 n1 f1 by auto
  note 3 = button_step_button[OF o2 b2, of "fresh_sounds f added"]
  let ?b3 = "b\<lparr>restingY := (if restingY b = Null then vec_y (position ob2) else restingY b),
                pressSound := bound_sound (fresh_sounds f added) buttonPressSound (pressSound b),
                releaseSound := bound_sound (fresh_sounds f added) buttonReleaseSound (releaseSound b),
                prevState := currState b, currState := resting\<rparr>"
  let ?e3 = "e2\<lparr>Button := Some ?b3\<rparr>"
  have o3: "Object3D ?e3 = Some ob2" and b3: "Button ?e3 = Some ?b3" using o2 by simp_all
  obtain e4 ob4 st where 4: "finger_step f ?e3 = Inr (e4, [])" and o4: "Object3D e4 = Some ob4"
    and b4: "Button e4 = Some (?b3\<lparr>currState := st\<rparr>)"
    and n4: "NeedCalibration e4 = NeedCalibration ?e3" and f4: "fixed_part e4 = fixed_part ?e3"
    using finger_step_keeps[OF o3 b3, of f] by blast
  have "entity_frame f added e =
     Inr (e4, edge_events (bound_sound (fresh_sounds f added) buttonPressSound (pressSound b))
                      (bound_sound (fresh_sounds f added) buttonReleaseSound (releaseSound b)) b)"
    unfolding entity_frame_def and_then_def using 1 2 3 4 by simp
  moreover have "fixed_part e4 = fixed_part e" using f4 f2 by (simp add: fixed_part_def)
  moreover have "NeedCalibration e4 \<longrightarrow> NeedCalibration e" using n4 n2 by simp
  ultimately show ?thesis using o4 b4 by simp
qed

lemma calls_edge_events:
  "calls (edge_events ps rs b) =
     (if currState b = fully_pressed \<and> prevState b \<noteq> fully_pressed then [action b] else [])"
  by (auto simp: edge_events_def split: option.splits)

lemma plays_edge_events:
  "plays (edge_events ps rs b) =
     (if currState b = fully_pressed \<and> prevState b \<noteq> fully_pressed
      then (case ps of None \<Rightarrow> [] | Some s \<Rightarrow> [s]) else [])
     @ (if currState b = recovering \<and> prevState b \<noteq> recovering
        then (case rs of None \<Rightarrow> [] | Some s \<Rightarrow> [s]) else [])"
  by (auto simp: edge_events_def split: option.splits)

lemma release_plays:
  assumes "ps \<noteq> Some buttonReleaseSound"
  shows "filter (\<lambda>s. s = buttonReleaseSound) (plays (edge_events ps (Some buttonReleaseSound) b))
      = (if currState b = recovering \<and> prevState b \<noteq> recovering then [buttonReleaseSound] else [])"
  using assms
  by (cases "currState b"; cases "prevState b"; cases ps) (simp_all add: edge_events_def)

lemma calibration_step_marker:
  "calibration_step f e = Inr (e1, ev) \<Longrightarrow> NeedCalibration e1 \<longrightarrow> NeedCalibration e"
  by (auto simp: calibration_step_def query_def calibrate_entity_def
      split: if_splits option.splits)

lemma instruction_step_marker:
  "instruction_step f e = Inr (e1, ev) \<Longrightarrow> NeedCalibration e1 = NeedCalibration e"
  by (auto simp: instruction_step_def query_def instruction_entity_def
      split: if_splits option.splits)

lemma button_step_marker:
  "button_step fresh e = Inr (e1, ev) \<Longrightarrow> NeedCalibration e1 = NeedCalibration e"
  by (auto simp: button_step_def query_def button_entity_def Let_def
      split: if_splits option.splits)

lemma finger_step_marker:
  "finger_step f e = Inr (e1, ev) \<Longrightarrow> NeedCalibration e1 = NeedCalibration e"
  by (auto simp: finger_step_def query_def finger_entity_def
      split: if_splits option.splits prod.splits)

lemma and_then_Inr:
  "and_then s t e = Inr (e2, ev) \<Longrightarrow>
     \<exists>e1 ev1 ev2. s e = Inr (e1, ev1) \<and> t e1 = Inr (e2, ev2) \<and> ev = ev1 @ ev2"
  by (auto simp: and_then_def split: sum.splits prod.splits)

lemma entity_frame_marker:
  assumes "entity_frame f added e = Inr (e1, ev)"
  shows "NeedCalibration e1 \<longrightarrow> NeedCalibration e"
proof -
  from assms obtain a b c eva evb evc evd eve evf where
    "instruction_step f e = Inr (a, eva)" "calibration_step f a = Inr (b, evb)"
    "button_step (fresh_sounds f added) b = Inr (c, evc)" "finger_step f c = Inr (e1, evd)"
    unfolding entity_frame_def
    by (auto dest!: and_then_Inr)
  then show ?thesis
    using instruction_step_marker calibration_step_marker button_step_marker finger_step_marker
    by metis
qed

lemma run_entity_marker:
  "run_entity fs added e = Inr (e', tr) \<Longrightarrow> \<not> NeedCalibration e \<Longrightarrow> \<not> NeedCalibration e'"
proof (induction fs arbitrary: e added tr)
  case Nil
  then show ?case by simp
next
  case (Cons f fs)
  then show ?case
    by (auto split: sum.splits prod.splits dest: entity_frame_marker)
qed

section \<open>FingerInputSystem: contact and recovery\<close>

text \<open>
  C1. With two hands on the button at pressing distances 0.01 and 0.03, the system should
  displace the button by the deeper reading, 0.03. It does not: \<open>Math.max\<close> receives the
  array, not its elements, and yields \<open>NaN\<close> for an array of two; \<open>NaN > 0\<close> is false, so
  the button is not displaced at all and stays \<open>pressed\<close> at \<open>position.y = 0\<close>. The 0.03
  reading alone, from one hand, drives the same button to \<open>fully_pressed\<close> at \<open>-0.02\<close>.
\<close>

theorem two_hands_deepest_reading_lost:
  "pressingDistances [hand_at 0.04, hand_at 0.02] (ident scenario_entity) scenario_button
     = [Num 0.01, Num 0.03]
   \<and> Math_max [Num 0.01, Num 0.03] = NaN
   \<and> finger_entity [hand_at 0.04, hand_at 0.02] (Num 0.016) scenario_entity
     = Inr (scenario_entity\<lparr>Button := Some (scenario_button\<lparr>currState := pressed\<rparr>)\<rparr>, [])
   \<and> finger_entity [hand_at 0.02] (Num 0.016) scenario_entity
     = Inr (scenario_entity\<lparr>Object3D := Some (mesh 0 (- 0.02) 0),
          Button := Some (scenario_button\<lparr>currState := fully_pressed\<rparr>)\<rparr>, [])"
  by (simp add: finger_entity_def finger_press_def pressingDistances_def hand_at_def
      scenario_entity_def scenario_button_def createEntity_def default_button_def mesh_def
      vec_def set_y_def Let_def)

text \<open>
  C2, as amended. With no hand on the button and \<open>position.y\<close> below \<open>restingY\<close>, one step
  adds exactly \<open>recoverySpeed * delta\<close> to \<open>position.y\<close> and sets the state to
  \<open>recovering\<close>; nothing clamps that step, so the button ends above \<open>restingY\<close> exactly
  when \<open>recoverySpeed * delta\<close> exceeds the distance that was left. The next step without
  contact then finds \<open>position.y\<close> at or above \<open>restingY\<close> and snaps it to \<open>restingY\<close>,
  state \<open>resting\<close>.
\<close>

theorem recovery_advance_then_snap:
  assumes "Object3D e = Some ob" and "Button e = Some b"
    and "\<not> contact hs (ident e)"
    and "vec_y (position ob) = Num a" and "restingY b = Num r" and "recoverySpeed b = Num s"
    and "a < r"
  shows "finger_entity hs (Num d) e
           = Inr (e\<lparr>Object3D := Some (set_y (Num (a + s * d)) ob),
                    Button := Some (b\<lparr>currState := recovering\<rparr>)\<rparr>, [])
       \<and> (r < a + s * d \<longleftrightarrow> r - a < s * d)
       \<and> (r \<le> a + s * d \<longrightarrow> \<not> contact hs' (ident e) \<longrightarrow>
            finger_entity hs' dt'
              (e\<lparr>Object3D := Some (set_y (Num (a + s * d)) ob),
                 Button := Some (b\<lparr>currState := recovering\<rparr>)\<rparr>)
            = Inr (e\<lparr>Object3D := Some (set_y (Num r) ob),
                     Button := Some (b\<lparr>currState := resting\<rparr>)\<rparr>, []))"
  using assms
  by (auto simp: finger_entity_def finger_press_def pressingDistances_empty)

theorem recovery_advance_then_snap_witness:
  "finger_entity [] (Num 1) sunk_entity
     = Inr (sunk_entity\<lparr>Object3D := Some (set_y (Num (- 0.01 + 0.4 * 1)) (mesh 0 (- 0.01) 0)),
              Button := Some (scenario_button\<lparr>currState := recovering\<rparr>)\<rparr>, [])
   \<and> finger_entity [] (Num 1)
       (sunk_entity\<lparr>Object3D := Some (set_y (Num (- 0.01 + 0.4 * 1)) (mesh 0 (- 0.01) 0)),
              Button := Some (scenario_button\<lparr>currState := recovering\<rparr>)\<rparr>)
     = Inr (sunk_entity\<lparr>Object3D := Some (set_y (Num 0) (mesh 0 (- 0.01) 0)),
              Button := Some (scenario_button\<lparr>currState := resting\<rparr>)\<rparr>, [])"
  using recovery_advance_then_snap [of sunk_entity "mesh 0 (- 0.01) 0" scenario_button "[]"
      "- 0.01" 0 "0.4" 1 "[]" "Num 1"]
  by (simp add: sunk_entity_def scenario_entity_def scenario_button_def default_button_def
      createEntity_def mesh_def vec_def contact_def)

text \<open>
  The claim as the specification has it fails: from \<open>position.y = -0.01\<close> below
  \<open>restingY = 0\<close>, a step with \<open>delta = 1\<close> and no contact leaves the button at 0.39, above
  \<open>restingY\<close>.
\<close>

theorem recovery_overshoots_resting:
  "finger_entity [] (Num 1) sunk_entity
     = Inr (sunk_entity\<lparr>Object3D := Some (mesh 0 0.39 0),
              Button := Some (scenario_button\<lparr>currState := recovering\<rparr>)\<rparr>, [])
   \<and> js_gt (Num 0.39) (restingY scenario_button)"
  by (simp add: finger_entity_def finger_press_def pressingDistances_def sunk_entity_def
      scenario_entity_def scenario_button_def default_button_def createEntity_def mesh_def
      vec_def set_y_def)

text \<open>
  C6. Whatever the hands' readings, a step with contact never leaves \<open>position.y\<close> below
  \<open>restingY - fullPressDistance\<close>: when the press applied (the reading, if it is a positive
  number) takes the button to or past that bound, \<open>position.y\<close> is exactly the bound and the
  state is \<open>fully_pressed\<close>; otherwise the button is where the press put it, \<open>pressed\<close>.
\<close>

theorem full_press_clamp:
  assumes "Object3D e = Some ob" and "Button e = Some b"
    and "contact hs (ident e)"
    and "vec_y (position ob) = Num a" and "restingY b = Num r"
    and "fullPressDistance b = Num f"
  shows "\<exists>a' st. finger_entity hs dt e
           = Inr (e\<lparr>Object3D := Some (set_y (Num a') ob),
                    Button := Some (b\<lparr>currState := st\<rparr>)\<rparr>, [])
       \<and> r - f \<le> a'
       \<and> (let p = (case ToNumber (Math_max (pressingDistances hs (ident e) b)) of
                      None \<Rightarrow> a | Some k \<Rightarrow> if 0 < k then a - k else a)
          in (p \<le> r - f \<longrightarrow> a' = r - f \<and> st = fully_pressed)
           \<and> (r - f < p \<longrightarrow> a' = p \<and> st = pressed))"
proof -
  let ?ds = "pressingDistances hs (ident e) b"
  have ne: "?ds \<noteq> []" using assms(3) by (simp add: pressingDistances_empty)
  consider "Math_max ?ds = NaN" | k where "Math_max ?ds = Num k"
    using Math_max_cases by blast
  then show ?thesis
  proof cases
    case 1
    then show ?thesis using assms ne
      by (auto simp: finger_entity_def finger_press_def Let_def set_y_same)
  next
    case 2
    then show ?thesis using assms ne
      by (auto simp: finger_entity_def finger_press_def Let_def set_y_same)
  qed
qed

theorem full_press_clamp_witness:
  "\<exists>a' st. finger_entity [hand_at (- 5)] (Num 0.016) scenario_entity
           = Inr (scenario_entity\<lparr>Object3D := Some (set_y (Num a') (mesh 0 0 0)),
                    Button := Some (scenario_button\<lparr>currState := st\<rparr>)\<rparr>, [])
       \<and> 0 - 0.02 \<le> a' \<and> a' = 0 - 0.02 \<and> st = fully_pressed"
  using full_press_clamp [of scenario_entity "mesh 0 0 0" scenario_button "[hand_at (- 5)]"
      0 0 "0.02" "Num 0.016"]
  by (simp add: scenario_entity_def scenario_button_def default_button_def createEntity_def
      mesh_def vec_def contact_def hand_at_def pressingDistances_def)

section \<open>ButtonSystem: one effect per edge\<close>

text \<open>
  C4. A button entity is run through any number of frames. In each frame \<open>ButtonSystem\<close>
  calls the button's action exactly once if the frame found the button \<open>fully_pressed\<close>
  with a previous state other than \<open>fully_pressed\<close>, and not at all otherwise: the calls,
  frame by frame, are the rising edges into \<open>fully_pressed\<close> of the states the frames found.
  So each contiguous run of \<open>fully_pressed\<close> gets one call, at its first frame, none at its
  later frames, and a frame that finds the button \<open>pressed\<close> gets none. The run never fails.
\<close>

theorem action_once_per_full_press:
  assumes "Object3D e \<noteq> None" and "Button e = Some b"
    and "NeedCalibration e \<longrightarrow> OffsetFromCamera e \<noteq> None"
  shows "\<exists>e' tr. run_entity fs added e = Inr (e', tr) \<and> length tr = length fs
     \<and> map (\<lambda>(e0, ev). calls ev) tr
        = map (\<lambda>r. if r then [action b] else [])
            (rising fully_pressed (prevState b) (map (\<lambda>(e0, ev). state_of e0) tr))"
  using assms
proof (induction fs arbitrary: e b added)
  case Nil
  then show ?case by simp
next
  case (Cons f fs)
  from Cons.prems obtain ob where ob: "Object3D e = Some ob" by auto
  let ?ev = "edge_events (bound_sound (fresh_sounds f added) buttonPressSound (pressSound b))
                      (bound_sound (fresh_sounds f added) buttonReleaseSound (releaseSound b)) b"
  obtain e1 ob1 b1 where fr: "entity_frame f added e = Inr (e1, ?ev)"
    and o1: "Object3D e1 = Some ob1" and b1: "Button e1 = Some b1"
    and n1: "NeedCalibration e1 \<longrightarrow> NeedCalibration e" and f1: "fixed_part e1 = fixed_part e"
    and p1: "prevState b1 = currState b" and a1: "action b1 = action b"
    using entity_frame_keeps[OF ob Cons.prems(2,3), of f added] by blast
  have w1: "NeedCalibration e1 \<longrightarrow> OffsetFromCamera e1 \<noteq> None"
    using n1 f1 Cons.prems(3) by (simp add: fixed_part_def)
  have "Object3D e1 \<noteq> None" using o1 by simp
  from Cons.IH[OF this b1 w1, of "added \<or> fresh_sounds f added"]
  obtain e' tr where run: "run_entity fs (added \<or> fresh_sounds f added) e1 = Inr (e', tr)"
    and len: "length tr = length fs"
    and cs: "map (\<lambda>(e0, ev). calls ev) tr
        = map (\<lambda>r. if r then [action b] else [])
            (rising fully_pressed (currState b) (map (\<lambda>(e0, ev). state_of e0) tr))"
    using p1 a1 by auto
  have "run_entity (f # fs) added e = Inr (e', (e, ?ev) # tr)"
    using fr run by simp
  moreover have "state_of e = currState b" using Cons.prems(2) by (simp add: state_of_def)
  ultimately show ?case using len cs by (simp add: calls_edge_events)
qed

theorem action_once_per_full_press_witness:
  "\<exists>e' tr. run_entity [press_frame, press_frame, idle_frame, idle_frame] False scenario_entity
        = Inr (e', tr)
     \<and> map (\<lambda>(e0, ev). state_of e0) tr = [resting, fully_pressed, fully_pressed, recovering]
     \<and> map (\<lambda>(e0, ev). calls ev) tr = [[], [obAction], [], []]"
proof -
  have "Object3D scenario_entity \<noteq> None" "Button scenario_entity = Some scenario_button"
    "NeedCalibration scenario_entity \<longrightarrow> OffsetFromCamera scenario_entity \<noteq> None"
    by (simp_all add: scenario_entity_def createEntity_def)
  from action_once_per_full_press [OF this,
      of "[press_frame, press_frame, idle_frame, idle_frame]" False]
  obtain e' tr where
    run: "run_entity [press_frame, press_frame, idle_frame, idle_frame] False scenario_entity
        = Inr (e', tr)"
    and edges: "map (\<lambda>(e0, ev). calls ev) tr
        = map (\<lambda>r. if r then [action scenario_button] else [])
            (rising fully_pressed (prevState scenario_button)
               (map (\<lambda>(e0, ev). state_of e0) tr))"
    by blast
  have st: "map (\<lambda>(e0, ev). state_of e0) tr = [resting, fully_pressed, fully_pressed, recovering]"
    using run by (auto simp: frame_eval)
  show ?thesis using run st edges
    by (simp add: scenario_button_def default_button_def)
qed


text \<open>
  C5. For a button whose release sound is bound (and is not also its press sound),
  \<open>ButtonSystem\<close> plays the release sound exactly once in each frame that finds the button
  \<open>recovering\<close> with a previous state other than \<open>recovering\<close>, and in no other frame: one
  play per contiguous run of \<open>recovering\<close>, at its first frame.
\<close>

theorem release_sound_once_per_recovery:
  assumes "Object3D e \<noteq> None" and "Button e = Some b"
    and "NeedCalibration e \<longrightarrow> OffsetFromCamera e \<noteq> None"
    and "releaseSound b = Some buttonReleaseSound"
    and "pressSound b \<noteq> Some buttonReleaseSound"
  shows "\<exists>e' tr. run_entity fs added e = Inr (e', tr) \<and> length tr = length fs
     \<and> map (\<lambda>(e0, ev). filter (\<lambda>s. s = buttonReleaseSound) (plays ev)) tr
        = map (\<lambda>r. if r then [buttonReleaseSound] else []) (rising recovering (prevState b) (map (\<lambda>(e0, ev). state_of e0) tr))"
  using assms
proof (induction fs arbitrary: e b added)
  case Nil
  then show ?case by simp
next
  case (Cons f fs)
  from Cons.prems obtain ob where ob: "Object3D e = Some ob" by auto
  let ?ps = "bound_sound (fresh_sounds f added) buttonPressSound (pressSound b)"
  let ?rs = "bound_sound (fresh_sounds f added) buttonReleaseSound (releaseSound b)"
  let ?ev = "edge_events ?ps ?rs b"
  obtain e1 ob1 b1 where fr: "entity_frame f added e = Inr (e1, ?ev)"
    and o1: "Object3D e1 = Some ob1" and b1: "Button e1 = Some b1"
    and n1: "NeedCalibration e1 \<longrightarrow> NeedCalibration e" and f1: "fixed_part e1 = fixed_part e"
    and p1: "prevState b1 = currState b"
    and ps1: "pressSound b1 = ?ps" and rs1: "releaseSound b1 = ?rs"
    using entity_frame_keeps[OF ob Cons.prems(2,3), of f added] by blast
  have rs: "?rs = Some buttonReleaseSound" and ps: "?ps \<noteq> Some buttonReleaseSound"
    using Cons.prems(4,5) by (simp_all add: bound_sound_def)
  have w1: "NeedCalibration e1 \<longrightarrow> OffsetFromCamera e1 \<noteq> None"
    using n1 f1 Cons.prems(3) by (simp add: fixed_part_def)
  have o1': "Object3D e1 \<noteq> None" using o1 by simp
  have r1: "releaseSound b1 = Some buttonReleaseSound" using rs rs1 by simp
  have q1: "pressSound b1 \<noteq> Some buttonReleaseSound" using ps ps1 by simp
  from Cons.IH[OF o1' b1 w1 r1 q1, of "added \<or> fresh_sounds f added"]
  obtain e' tr where run: "run_entity fs (added \<or> fresh_sounds f added) e1 = Inr (e', tr)"
    and len: "length tr = length fs"
    and cs: "map (\<lambda>(e0, ev). filter (\<lambda>s. s = buttonReleaseSound) (plays ev)) tr
        = map (\<lambda>r. if r then [buttonReleaseSound] else []) (rising recovering (currState b) (map (\<lambda>(e0, ev). state_of e0) tr))"
    using p1 by auto
  have "run_entity (f # fs) added e = Inr (e', (e, ?ev) # tr)"
    using fr run by simp
  moreover have "state_of e = currState b" using Cons.prems(2) by (simp add: state_of_def)
  moreover have "filter (\<lambda>s. s = buttonReleaseSound) (plays ?ev)
      = (if currState b = recovering \<and> prevState b \<noteq> recovering then [buttonReleaseSound] else [])"
    unfolding rs using release_plays[OF ps] .
  ultimately show ?case using len cs by simp
qed

theorem release_sound_once_per_recovery_witness:
  "\<exists>e' tr. run_entity [press_frame, idle_frame, idle_frame, idle_frame] True
        (scenario_entity\<lparr>Button := Some (scenario_button\<lparr>pressSound := Some buttonPressSound,
            releaseSound := Some buttonReleaseSound\<rparr>)\<rparr>) = Inr (e', tr)
     \<and> map (\<lambda>(e0, ev). state_of e0) tr = [resting, fully_pressed, recovering, recovering]
     \<and> map (\<lambda>(e0, ev). filter (\<lambda>s. s = buttonReleaseSound) (plays ev)) tr
        = [[], [], [buttonReleaseSound], []]"
proof -
  let ?b = "scenario_button\<lparr>pressSound := Some buttonPressSound,
            releaseSound := Some buttonReleaseSound\<rparr>"
  let ?e = "scenario_entity\<lparr>Button := Some ?b\<rparr>"
  have "Object3D ?e \<noteq> None" "Button ?e = Some ?b"
    "NeedCalibration ?e \<longrightarrow> OffsetFromCamera ?e \<noteq> None"
    "releaseSound ?b = Some buttonReleaseSound" "pressSound ?b \<noteq> Some buttonReleaseSound"
    by (simp_all add: scenario_entity_def createEntity_def)
  from release_sound_once_per_recovery [OF this,
      of "[press_frame, idle_frame, idle_frame, idle_frame]" True]
  obtain e' tr where
    run: "run_entity [press_frame, idle_frame, idle_frame, idle_frame] True ?e = Inr (e', tr)"
    and edges: "map (\<lambda>(e0, ev). filter (\<lambda>s. s = buttonReleaseSound) (plays ev)) tr
        = map (\<lambda>r. if r then [buttonReleaseSound] else [])
            (rising recovering (prevState ?b) (map (\<lambda>(e0, ev). state_of e0) tr))"
    by blast
  have st: "map (\<lambda>(e0, ev). state_of e0) tr = [resting, fully_pressed, recovering, recovering]"
    using run by (auto simp: frame_eval)
  show ?thesis using run st edges
    by (simp add: scenario_button_def default_button_def)
qed

section \<open>InstructionSystem\<close>

text \<open>
  C9. In a world whose instruction-text entities all have an object, \<open>InstructionSystem\<close>
  sets the \<open>visible\<close> flag of the object of every such entity to the disjunction of the
  \<open>visible\<close> flags of its controllers in this frame (true iff at least one is visible), and
  changes nothing else. The new flags are a function of the controllers' flags alone: the
  objects' earlier \<open>visible\<close> values do not enter.
\<close>

theorem instruction_visibility:
  assumes "\<forall>e\<in>set (entities w). HandsInstructionText e \<longrightarrow> Object3D e \<noteq> None"
  shows "execute_system f InstructionSystem w =
           Inr (w\<lparr>entities := map (\<lambda>e. if HandsInstructionText e
                    then e\<lparr>Object3D := map_option
                             (\<lambda>ob. ob\<lparr>visible := (\<exists>c\<in>set (controllers f). c)\<rparr>) (Object3D e)\<rparr>
                    else e) (entities w)\<rparr>)"
proof -
  let ?g = "\<lambda>e. if HandsInstructionText e
                    then e\<lparr>Object3D := map_option
                             (\<lambda>ob. ob\<lparr>visible := (\<exists>c\<in>set (controllers f). c)\<rparr>) (Object3D e)\<rparr>
                    else e"
  have "forEach (instruction_step f) (entities w) = Inr (map ?g (entities w), [])"
  proof (rule forEach_map)
    fix e assume "e \<in> set (entities w)"
    with assms show "instruction_step f e = Inr (?g e, [])"
      by (auto simp: instruction_step_def query_def instruction_entity_def anyVisible_iff)
  qed
  then show ?thesis by (simp add: over_entities_def)
qed

theorem instruction_visibility_witness:
  "execute_system tracked_frame InstructionSystem init_world =
     Inr (init_world\<lparr>entities := [csEntity, obEntity, pbEntity, rbEntity, ebEntity, itEntity]\<rparr>)
   \<and> execute_system idle_frame InstructionSystem init_world =
     Inr (init_world\<lparr>entities := [csEntity, obEntity, pbEntity, rbEntity, ebEntity,
        itEntity\<lparr>Object3D := Some ((mesh 0 1.6 (- 0.6))\<lparr>visible := False\<rparr>)\<rparr>]\<rparr>)"
  using instruction_visibility [of init_world tracked_frame]
    instruction_visibility [of init_world idle_frame]
  by (simp add: init_world_def registerSystem_def csEntity_def obEntity_def pbEntity_def
      rbEntity_def ebEntity_def itEntity_def createEntity_def tracked_frame_def idle_frame_def
      mesh_def)

section \<open>Scene navigation\<close>

lemma nextScene_index:
  "0 \<le> currentSceneIndex v \<Longrightarrow> currentSceneIndex (nextScene v) = (currentSceneIndex v + 1) mod 6"
  by (simp add: nextScene_def loadScene_def js_rem_def scenes_def Let_def)

lemma prevScene_index:
  "0 \<le> currentSceneIndex v \<Longrightarrow> currentSceneIndex (prevScene v) = (currentSceneIndex v - 1) mod 6"
proof -
  assume "0 \<le> currentSceneIndex v"
  then have "currentSceneIndex (prevScene v) = (currentSceneIndex v - 1 + 6) mod 6"
    by (simp add: prevScene_def loadScene_def js_rem_def scenes_def Let_def)
  also have "\<dots> = (currentSceneIndex v - 1) mod 6"
    by (rule mod_add_self2)
  finally show ?thesis .
qed

text \<open>
  C10. With \<open>currentSceneIndex\<close> within the six scenes, \<open>nextScene\<close> and \<open>prevScene\<close> leave
  it within them, stepping by one modulo 6, and each undoes the other's change of
  \<open>currentSceneIndex\<close>.
\<close>

theorem scene_index_round_trip:
  assumes "0 \<le> currentSceneIndex v" and "currentSceneIndex v < int (length scenes)"
  shows "0 \<le> currentSceneIndex (nextScene v) \<and> currentSceneIndex (nextScene v) < int (length scenes)
       \<and> 0 \<le> currentSceneIndex (prevScene v) \<and> currentSceneIndex (prevScene v) < int (length scenes)
       \<and> currentSceneIndex (nextScene v) = (currentSceneIndex v + 1) mod 6
       \<and> currentSceneIndex (prevScene v) = (currentSceneIndex v - 1) mod 6
       \<and> currentSceneIndex (prevScene (nextScene v)) = currentSceneIndex v
       \<and> currentSceneIndex (nextScene (prevScene v)) = currentSceneIndex v"
proof -
  let ?i = "currentSceneIndex v"
  have len: "int (length scenes) = 6" by (simp add: scenes_def)
  have small: "?i mod 6 = ?i" using assms len by simp
  have nx: "currentSceneIndex (nextScene v) = (?i + 1) mod 6"
    using assms(1) by (rule nextScene_index)
  have pv: "currentSceneIndex (prevScene v) = (?i - 1) mod 6"
    using assms(1) by (rule prevScene_index)
  have n0: "0 \<le> currentSceneIndex (nextScene v)" and n6: "currentSceneIndex (nextScene v) < 6"
    unfolding nx by simp_all
  have p0: "0 \<le> currentSceneIndex (prevScene v)" and p6: "currentSceneIndex (prevScene v) < 6"
    unfolding pv by simp_all
  have "currentSceneIndex (prevScene (nextScene v)) = ((?i + 1) mod 6 - 1) mod 6"
    using prevScene_index[OF n0] nx by simp
  also have "\<dots> = (?i + 1 - 1) mod 6" by (rule mod_diff_left_eq)
  finally have pn: "currentSceneIndex (prevScene (nextScene v)) = ?i" using small by simp
  have "currentSceneIndex (nextScene (prevScene v)) = ((?i - 1) mod 6 + 1) mod 6"
    using nextScene_index[OF p0] pv by simp
  also have "\<dots> = (?i - 1 + 1) mod 6" by (rule mod_add_left_eq)
  finally have np: "currentSceneIndex (nextScene (prevScene v)) = ?i" using small by simp
  show ?thesis using n0 n6 p0 p6 nx pv pn np len by simp
qed

theorem scene_index_round_trip_witness:
  "currentSceneIndex (nextScene \<lparr>currentSceneIndex = 5, requested = []\<rparr>) = 0
   \<and> currentSceneIndex (prevScene \<lparr>currentSceneIndex = 0, requested = []\<rparr>) = 5
   \<and> currentSceneIndex (prevScene (nextScene \<lparr>currentSceneIndex = 5, requested = []\<rparr>)) = 5
   \<and> currentSceneIndex (nextScene (prevScene \<lparr>currentSceneIndex = 0, requested = []\<rparr>)) = 0"
  using scene_index_round_trip [of "\<lparr>currentSceneIndex = 5, requested = []\<rparr>"]
    scene_index_round_trip [of "\<lparr>currentSceneIndex = 0, requested = []\<rparr>"]
  by (simp add: scenes_def)

section \<open>The press scenario\<close>

lemma entity_frame_plain:
  assumes "Object3D e = Some ob" and "Button e = Some b"
    and "\<not> NeedCalibration e" and "\<not> HandsInstructionText e" and "Pressable e"
    and "restingY b \<noteq> Null"
  shows "entity_frame f added e =
     (let ps = bound_sound (fresh_sounds f added) buttonPressSound (pressSound b);
          rs = bound_sound (fresh_sounds f added) buttonReleaseSound (releaseSound b);
          b1 = b\<lparr>pressSound := ps, releaseSound := rs, prevState := currState b,
                currState := resting\<rparr>;
          r = finger_press (pressingDistances (hands f) (ident e) b1) (delta f) b1 ob
      in Inr (e\<lparr>Object3D := Some (snd r), Button := Some (fst r)\<rparr>, edge_events ps rs b))"
proof -
  have 1: "instruction_step f e = Inr (e, [])"
    using assms(4) by (simp add: instruction_step_def query_def)
  have 2: "calibration_step f e = Inr (e, [])"
    using assms(3) by (simp add: calibration_step_def query_def)
  note 3 = button_step_button[OF assms(1,2), of "fresh_sounds f added"]
  show ?thesis
    unfolding entity_frame_def and_then_def
    using 1 2 3 assms
    by (simp add: finger_step_def query_def finger_entity_def Let_def split: prod.splits)
qed

lemma finger_press_released:
  "currState (fst (finger_press [] dt b ob)) \<noteq> fully_pressed"
  by (simp add: finger_press_def)

lemma finger_press_held:
  assumes "ds \<noteq> []" and "vec_y (position ob) = Num (r - q)"
    and "restingY b = Num r" and "fullPressDistance b = Num q"
  shows "finger_press ds dt b ob = (b\<lparr>currState := fully_pressed\<rparr>, ob)"
proof -
  consider "Math_max ds = NaN" | k where "Math_max ds = Num k"
    using Math_max_cases by blast
  then show ?thesis
    using assms by cases (auto simp: finger_press_def Let_def set_y_same)
qed


lemma frame_released:
  assumes "Object3D e = Some ob" and "Button e = Some b"
    and "\<not> NeedCalibration e" and "\<not> HandsInstructionText e" and "Pressable e"
    and "restingY b \<noteq> Null" and "\<not> contact (hands f) (ident e)"
  shows "\<exists>e1 ob1 b1. entity_frame f added e =
       Inr (e1, edge_events (bound_sound (fresh_sounds f added) buttonPressSound (pressSound b))
              (bound_sound (fresh_sounds f added) buttonReleaseSound (releaseSound b)) b)
     \<and> Object3D e1 = Some ob1 \<and> Button e1 = Some b1
     \<and> \<not> NeedCalibration e1 \<and> \<not> HandsInstructionText e1 \<and> Pressable e1
     \<and> ident e1 = ident e \<and> restingY b1 = restingY b \<and> action b1 = action b
     \<and> prevState b1 = currState b \<and> currState b1 \<noteq> fully_pressed"
proof -
  let ?b1 = "b\<lparr>pressSound := bound_sound (fresh_sounds f added) buttonPressSound (pressSound b),
      releaseSound := bound_sound (fresh_sounds f added) buttonReleaseSound (releaseSound b),
      prevState := currState b, currState := resting\<rparr>"
  have ds: "pressingDistances (hands f) (ident e) ?b1 = []"
    using assms(7) by (simp add: pressingDistances_empty)
  obtain st where st: "fst (finger_press [] (delta f) ?b1 ob) = ?b1\<lparr>currState := st\<rparr>"
    using finger_press_keeps by blast
  have "st \<noteq> fully_pressed"
    using finger_press_released[of "delta f" ?b1 ob] st by simp
  then show ?thesis
    using entity_frame_plain[OF assms(1-6), of f added] assms(3-5) ds st
    by (simp add: Let_def)
qed

lemma frame_held:
  assumes "Object3D e = Some ob" and "Button e = Some b"
    and "\<not> NeedCalibration e" and "\<not> HandsInstructionText e" and "Pressable e"
    and "restingY b = Num r" and "fullPressDistance b = Num q"
    and "vec_y (position ob) = Num (r - q)" and "contact (hands f) (ident e)"
  shows "\<exists>e1 b1. entity_frame f added e =
       Inr (e1, edge_events (bound_sound (fresh_sounds f added) buttonPressSound (pressSound b))
              (bound_sound (fresh_sounds f added) buttonReleaseSound (releaseSound b)) b)
     \<and> Object3D e1 = Some ob \<and> Button e1 = Some b1
     \<and> \<not> NeedCalibration e1 \<and> \<not> HandsInstructionText e1 \<and> Pressable e1
     \<and> ident e1 = ident e \<and> restingY b1 = Num r \<and> fullPressDistance b1 = Num q
     \<and> action b1 = action b \<and> prevState b1 = currState b \<and> currState b1 = fully_pressed"
proof -
  let ?b1 = "b\<lparr>pressSound := bound_sound (fresh_sounds f added) buttonPressSound (pressSound b),
      releaseSound := bound_sound (fresh_sounds f added) buttonReleaseSound (releaseSound b),
      prevState := currState b, currState := resting\<rparr>"
  have ds: "pressingDistances (hands f) (ident e) ?b1 \<noteq> []"
    using assms(9) by (simp add: pressingDistances_empty)
  have "finger_press (pressingDistances (hands f) (ident e) ?b1) (delta f) ?b1 ob
      = (?b1\<lparr>currState := fully_pressed\<rparr>, ob)"
    using finger_press_held[OF ds assms(8), of ?b1 "delta f"] assms(6,7) by simp
  moreover have "restingY b \<noteq> Null" using assms(6) by simp
  ultimately show ?thesis
    using entity_frame_plain[OF assms(1,2,3,4,5), of f added] assms(3-7)
    by (simp add: Let_def)
qed

lemma release_run:
  assumes "Object3D e = Some ob" and "Button e = Some b"
    and "\<not> NeedCalibration e" and "\<not> HandsInstructionText e" and "Pressable e"
    and "restingY b \<noteq> Null" and "\<forall>g\<in>set rs. \<not> contact (hands g) (ident e)"
  shows "\<exists>e' tr. run_entity rs added e = Inr (e', tr)
     \<and> concat (map (\<lambda>(e0, ev). calls ev) tr)
       = (if rs \<noteq> [] \<and> currState b = fully_pressed \<and> prevState b \<noteq> fully_pressed
          then [action b] else [])"
  using assms
proof (induction rs arbitrary: e ob b added)
  case Nil
  then show ?case by simp
next
  case (Cons f rs)
  have nc: "\<not> contact (hands f) (ident e)" using Cons.prems(7) by simp
  let ?ev = "edge_events (bound_sound (fresh_sounds f added) buttonPressSound (pressSound b))
              (bound_sound (fresh_sounds f added) buttonReleaseSound (releaseSound b)) b"
  obtain e1 ob1 b1 where fr: "entity_frame f added e = Inr (e1, ?ev)"
    and o1: "Object3D e1 = Some ob1" and b1: "Button e1 = Some b1"
    and fl: "\<not> NeedCalibration e1" "\<not> HandsInstructionText e1" "Pressable e1"
    and id1: "ident e1 = ident e" and r1: "restingY b1 = restingY b"
    and a1: "action b1 = action b" and c1: "currState b1 \<noteq> fully_pressed"
    using frame_released[OF Cons.prems(1-6) nc, of added] by blast
  have r1': "restingY b1 \<noteq> Null" using r1 Cons.prems(6) by simp
  have rest: "\<forall>g\<in>set rs. \<not> contact (hands g) (ident e1)" using Cons.prems(7) id1 by simp
  obtain e' tr where run: "run_entity rs (added \<or> fresh_sounds f added) e1 = Inr (e', tr)"
    and cs: "concat (map (\<lambda>(e0, ev). calls ev) tr) = []"
    using Cons.IH[OF o1 b1 fl r1' rest, of "added \<or> fresh_sounds f added"] c1 by auto
  have "run_entity (f # rs) added e = Inr (e', (e, ?ev) # tr)" using fr run by simp
  then show ?case using cs by (simp add: calls_edge_events)
qed

lemma hold_run:
  assumes "Object3D e = Some ob" and "Button e = Some b"
    and "\<not> NeedCalibration e" and "\<not> HandsInstructionText e" and "Pressable e"
    and "restingY b = Num r" and "fullPressDistance b = Num q"
    and "vec_y (position ob) = Num (r - q)" and "currState b = fully_pressed"
    and "\<forall>g\<in>set hs. contact (hands g) (ident e)"
    and "\<forall>g\<in>set rs. \<not> contact (hands g) (ident e)"
  shows "\<exists>e' tr. run_entity (hs @ rs) added e = Inr (e', tr)
     \<and> concat (map (\<lambda>(e0, ev). calls ev) tr)
       = (if hs @ rs \<noteq> [] \<and> prevState b \<noteq> fully_pressed then [action b] else [])"
  using assms
proof (induction hs arbitrary: e b added)
  case Nil
  have "restingY b \<noteq> Null" using Nil.prems(6) by simp
  from release_run[OF Nil.prems(1-5) this Nil.prems(11), of added] Nil.prems(9)
  show ?case by simp
next
  case (Cons f hs)
  have ct: "contact (hands f) (ident e)" using Cons.prems(10) by simp
  let ?ev = "edge_events (bound_sound (fresh_sounds f added) buttonPressSound (pressSound b))
              (bound_sound (fresh_sounds f added) buttonReleaseSound (releaseSound b)) b"
  obtain e1 b1 where fr: "entity_frame f added e = Inr (e1, ?ev)"
    and o1: "Object3D e1 = Some ob" and b1: "Button e1 = Some b1"
    and fl: "\<not> NeedCalibration e1" "\<not> HandsInstructionText e1" "Pressable e1"
    and id1: "ident e1 = ident e" and r1: "restingY b1 = Num r"
    and q1: "fullPressDistance b1 = Num q"
    and a1: "action b1 = action b" and p1: "prevState b1 = currState b"
    and c1: "currState b1 = fully_pressed"
    using frame_held[OF Cons.prems(1-8) ct, of added] by blast
  have hs: "\<forall>g\<in>set hs. contact (hands g) (ident e1)"
    and rs: "\<forall>g\<in>set rs. \<not> contact (hands g) (ident e1)"
    using Cons.prems(10,11) id1 by simp_all
  obtain e' tr where run: "run_entity (hs @ rs) (added \<or> fresh_sounds f added) e1 = Inr (e', tr)"
    and cs: "concat (map (\<lambda>(e0, ev). calls ev) tr) = []"
    using Cons.IH[OF o1 b1 fl r1 q1 Cons.prems(8) c1 hs rs, of "added \<or> fresh_sounds f added"]
      p1 Cons.prems(9) by auto
  have "run_entity ((f # hs) @ rs) added e = Inr (e', (e, ?ev) # tr)" using fr run by simp
  then show ?case using cs Cons.prems(9) by (simp add: calls_edge_events)
qed


text \<open>
  C8. The button with \<open>restingY = 0\<close>, \<open>surfaceY = 0.05\<close>, \<open>fullPressDistance = 0.02\<close>
  starts at \<open>position.y = 0\<close>. A frame in which exactly one hand touches it, at pressing
  distance 0.025, leaves it at \<open>position.y = -0.02\<close>, \<open>fully_pressed\<close>, and emits nothing
  yet. Over the press cycle (that frame, then any frames in which the contact lasts, then
  any frames without contact, at least one frame following the first) the action is called
  exactly once.
\<close>

theorem scenario_single_press:
  assumes "hands f = [hand_at 0.025]"
    and "\<forall>g\<in>set hs. contact (hands g) (ident scenario_entity)"
    and "\<forall>g\<in>set rs. \<not> contact (hands g) (ident scenario_entity)"
    and "hs @ rs \<noteq> []"
  shows "pressingDistances (hands f) (ident scenario_entity) scenario_button = [Num 0.025]
     \<and> (\<exists>b1. entity_frame f added scenario_entity
            = Inr (scenario_entity\<lparr>Object3D := Some (mesh 0 (- 0.02) 0), Button := Some b1\<rparr>, [])
          \<and> currState b1 = fully_pressed)
     \<and> (\<exists>e' tr. run_entity (f # hs @ rs) added scenario_entity = Inr (e', tr)
          \<and> concat (map (\<lambda>(e0, ev). calls ev) tr) = [obAction])"
proof -
  let ?ps = "bound_sound (fresh_sounds f added) buttonPressSound None"
  let ?rs = "bound_sound (fresh_sounds f added) buttonReleaseSound None"
  let ?b1 = "scenario_button\<lparr>pressSound := ?ps, releaseSound := ?rs, prevState := resting,
      currState := fully_pressed\<rparr>"
  let ?e1 = "scenario_entity\<lparr>Object3D := Some (mesh 0 (- 0.02) 0), Button := Some ?b1\<rparr>"
  have ds: "pressingDistances (hands f) (ident scenario_entity) scenario_button = [Num 0.025]"
    using assms(1)
    by (simp add: pressingDistances_def hand_at_def scenario_button_def default_button_def)
  have o: "Object3D scenario_entity = Some (mesh 0 0 0)"
    and b: "Button scenario_entity = Some scenario_button"
    and fl: "\<not> NeedCalibration scenario_entity" "\<not> HandsInstructionText scenario_entity"
      "Pressable scenario_entity"
    by (simp_all add: scenario_entity_def createEntity_def)
  have r: "restingY scenario_button \<noteq> Null"
    by (simp add: scenario_button_def default_button_def)
  have fr: "entity_frame f added scenario_entity = Inr (?e1, [])"
    using entity_frame_plain[OF o b fl r, of f added] assms(1)
    by (simp add: Let_def pressingDistances_def hand_at_def finger_press_def edge_events_def
        scenario_button_def default_button_def mesh_def vec_def set_y_def)
  have "\<exists>e' tr. run_entity (hs @ rs) (added \<or> fresh_sounds f added) ?e1 = Inr (e', tr)
     \<and> concat (map (\<lambda>(e0, ev). calls ev) tr)
       = (if hs @ rs \<noteq> [] \<and> prevState ?b1 \<noteq> fully_pressed then [action ?b1] else [])"
  proof (rule hold_run[where r = 0 and q = "0.02" and ob = "mesh 0 (- 0.02) 0"])
    show "vec_y (position (mesh 0 (- 0.02) 0)) = Num (0 - 0.02)"
      by (simp add: mesh_def vec_def)
  qed (use assms(2,3) fl in \<open>simp_all add: scenario_button_def default_button_def
        scenario_entity_def createEntity_def\<close>)
  then obtain e' tr where run: "run_entity (hs @ rs) (added \<or> fresh_sounds f added) ?e1 = Inr (e', tr)"
    and cs: "concat (map (\<lambda>(e0, ev). calls ev) tr) = [obAction]"
    using assms(4) by (auto simp: scenario_button_def)
  have "run_entity (f # hs @ rs) added scenario_entity = Inr (e', (scenario_entity, []) # tr)"
    using fr run by simp
  then have whole: "\<exists>e' tr. run_entity (f # hs @ rs) added scenario_entity = Inr (e', tr)
          \<and> concat (map (\<lambda>(e0, ev). calls ev) tr) = [obAction]"
    using cs by simp
  have "currState ?b1 = fully_pressed" by simp
  with fr have first: "\<exists>b1. entity_frame f added scenario_entity
            = Inr (scenario_entity\<lparr>Object3D := Some (mesh 0 (- 0.02) 0), Button := Some b1\<rparr>, [])
          \<and> currState b1 = fully_pressed"
    by blast
  show ?thesis using ds first whole by blast
qed

theorem scenario_single_press_witness:
  "pressingDistances (hands press_frame) (ident scenario_entity) scenario_button = [Num 0.025]
     \<and> (\<exists>b1. entity_frame press_frame False scenario_entity
            = Inr (scenario_entity\<lparr>Object3D := Some (mesh 0 (- 0.02) 0), Button := Some b1\<rparr>, [])
          \<and> currState b1 = fully_pressed)
     \<and> (\<exists>e' tr. run_entity (press_frame # [press_frame] @ [idle_frame, idle_frame]) False
             scenario_entity = Inr (e', tr)
          \<and> concat (map (\<lambda>(e0, ev). calls ev) tr) = [obAction])"
  using scenario_single_press [of press_frame "[press_frame]" "[idle_frame, idle_frame]" False]
  by (simp add: press_frame_def idle_frame_def contact_def hand_at_def)

section \<open>The order of the systems\<close>

lemma error_unique: "(a::error) = b"
  by (cases a; cases b) simp

lemma and_then_cases:
  "s e = Inl a \<Longrightarrow> and_then s t e = Inl a"
  "s e = Inr (e1, ev1) \<Longrightarrow> t e1 = Inl a \<Longrightarrow> and_then s t e = Inl a"
  "s e = Inr (e1, ev1) \<Longrightarrow> t e1 = Inr (e2, ev2) \<Longrightarrow> and_then s t e = Inr (e2, ev1 @ ev2)"
  by (simp_all add: and_then_def)

lemma forEach_silent:
  "silent s \<Longrightarrow> forEach s es = Inr (es1, evs) \<Longrightarrow> evs = []"
proof (induction es arbitrary: es1 evs)
  case Nil
  then show ?case by simp
next
  case (Cons e es)
  then show ?case
    by (auto simp: silent_def split: sum.splits prod.splits)
qed

lemma forEach_fuse_left:
  assumes "silent s"
  shows "forEach (and_then s t) es =
     (case forEach s es of Inl err \<Rightarrow> Inl err | Inr (es1, ev1) \<Rightarrow> forEach t es1)"
proof (induction es)
  case Nil
  then show ?case by simp
next
  case (Cons e es)
  show ?case
  proof (cases "s e")
    case (Inl a)
    then show ?thesis by (simp add: and_then_cases(1))
  next
    case (Inr p)
    then obtain e1 where se: "s e = Inr (e1, [])"
      using assms by (cases p) (auto simp: silent_def)
    show ?thesis
    proof (cases "t e1")
      case (Inl a)
      have "and_then s t e = Inl a" using se Inl by (rule and_then_cases(2))
      then show ?thesis using se Inl
        by (auto simp: error_unique split: sum.splits prod.splits)
    next
      case r: (Inr q)
      then obtain e2 ev2 where te: "t e1 = Inr (e2, ev2)" by (cases q) auto
      have "and_then s t e = Inr (e2, [] @ ev2)" using se te by (rule and_then_cases(3))
      then show ?thesis using se te Cons.IH
        by (auto simp: error_unique split: sum.splits prod.splits)
    qed
  qed
qed

lemma forEach_fuse_right:
  assumes "silent t"
  shows "forEach (and_then s t) es =
     (case forEach s es of Inl err \<Rightarrow> Inl err
      | Inr (es1, ev1) \<Rightarrow> (case forEach t es1 of Inl err \<Rightarrow> Inl err
           | Inr (es2, ev2) \<Rightarrow> Inr (es2, ev1)))"
proof (induction es)
  case Nil
  then show ?case by simp
next
  case (Cons e es)
  show ?case
  proof (cases "s e")
    case (Inl a)
    then show ?thesis by (simp add: and_then_cases(1))
  next
    case (Inr p)
    then obtain e1 ev1 where se: "s e = Inr (e1, ev1)" by (cases p) auto
    show ?thesis
    proof (cases "t e1")
      case (Inl a)
      have "and_then s t e = Inl a" using se Inl by (rule and_then_cases(2))
      then show ?thesis using se Inl
        by (auto simp: error_unique split: sum.splits prod.splits)
    next
      case r: (Inr q)
      then obtain e2 where te: "t e1 = Inr (e2, [])"
        using assms by (cases q) (auto simp: silent_def)
      have "and_then s t e = Inr (e2, ev1 @ [])" using se te by (rule and_then_cases(3))
      then show ?thesis using se te Cons.IH forEach_silent[OF assms]
        by (auto simp: error_unique split: sum.splits prod.splits)
    qed
  qed
qed


lemma over_entities_fuse_left:
  assumes "silent s"
  shows "then_run (over_entities s) (over_entities t) w = over_entities (and_then s t) w"
  using forEach_silent[OF assms]
  by (auto simp: then_run_def over_entities_def forEach_fuse_left[OF assms]
      split: sum.splits prod.splits)

lemma over_entities_fuse_right:
  assumes "silent t"
  shows "then_run (over_entities s) (over_entities t) w = over_entities (and_then s t) w"
  using forEach_silent[OF assms]
  by (auto simp: then_run_def over_entities_def forEach_fuse_right[OF assms]
      split: sum.splits prod.splits)

lemma instruction_silent: "silent (instruction_step f)"
  by (auto simp: silent_def instruction_step_def query_def instruction_entity_def
      split: if_splits option.splits)

lemma instruction_button_commute:
  "and_then (instruction_step f) (button_step fr) e
     = and_then (button_step fr) (instruction_step f) e"
  by (auto simp: and_then_def instruction_step_def button_step_def query_def
      instruction_entity_def button_entity_def Let_def split: option.splits)

lemma finger_press_visible:
  "finger_press ds dt b (ob\<lparr>visible := v\<rparr>)
     = (fst (finger_press ds dt b ob), (snd (finger_press ds dt b ob))\<lparr>visible := v\<rparr>)"
  by (simp add: finger_press_def set_y_def Let_def)

lemma instruction_finger_commute:
  "and_then (instruction_step f) (finger_step g) e
     = and_then (finger_step g) (instruction_step f) e"
  by (auto simp: and_then_def instruction_step_def finger_step_def query_def
      instruction_entity_def finger_entity_def finger_press_visible
      split: option.splits prod.splits)


lemma then_run_assoc: "then_run (then_run a b) c = then_run a (then_run b c)"
  by (rule ext) (simp add: then_run_def split: sum.splits)

lemma then_run_Inr: "then_run a Inr = a"
  by (rule ext) (simp add: then_run_def split: sum.splits)

lemma execute_systems_Cons:
  "execute_systems f (s # ss) = then_run (execute_system f s) (execute_systems f ss)"
  by (rule ext) (simp add: then_run_def)

lemma execute_systems_four:
  "execute_systems f [a, b, c, d]
     = then_run (execute_system f a) (then_run (execute_system f b)
         (then_run (execute_system f c) (execute_system f d)))"
proof -
  have "execute_systems f [] = Inr" by (rule ext) simp
  then show ?thesis by (simp add: execute_systems_Cons then_run_Inr)
qed

lemma execute_system_over:
  "execute_system f InstructionSystem = over_entities (instruction_step f)"
  "execute_system f CalibrationSystem
     = over_live NeedCalibration (calibrate_entity (session f) (xrCamera f))"
  "execute_system f FingerInputSystem = over_entities (finger_step f)"
  by (rule ext, simp)+

lemma forEach_live_commute:
  assumes sil: "silent s"
    and keep: "\<And>e e1. s e = Inr (e1, []) \<Longrightarrow> q e1 = q e"
    and comm: "\<And>e. q e \<Longrightarrow> and_then s f e = and_then f s e"
  shows "(case forEach s es of Inl err \<Rightarrow> Inl err | Inr (es1, ev1) \<Rightarrow> forEach_live q f sk es1)
       = (case forEach_live q f sk es of Inl err \<Rightarrow> Inl err
          | Inr (es2, ev2) \<Rightarrow>
              (case forEach s es2 of Inl err \<Rightarrow> Inl err | Inr (es3, ev3) \<Rightarrow> Inr (es3, ev2)))"
    (is "?L sk es = ?R sk es")
proof (induction es arbitrary: sk)
  case Nil
  show ?case by simp
next
  case (Cons e es)
  show ?case
  proof (cases "s e")
    case (Inl a)
    have L: "?L sk (e # es) = Inl a" using Inl by simp
    have "?R sk (e # es) = Inl a"
    proof (cases "q e \<and> \<not> sk")
      case False
      then show ?thesis using Inl
        by (auto simp: error_unique split: sum.splits prod.splits)
    next
      case True
      then have "and_then f s e = Inl a"
        using comm[of e] Inl by (simp add: and_then_cases(1))
      then have "f e = Inl a \<or> (\<exists>e3 ev. f e = Inr (e3, ev) \<and> s e3 = Inl a)"
        by (auto simp: and_then_def split: sum.splits prod.splits)
      then show ?thesis using True
        by (auto simp: error_unique split: sum.splits prod.splits)
    qed
    with L show ?thesis by simp
  next
    case (Inr p)
    then obtain e1 where se: "s e = Inr (e1, [])"
      using sil by (cases p) (auto simp: silent_def)
    have q1: "q e1 = q e" using keep[OF se] .
    show ?thesis
    proof (cases "q e \<and> \<not> sk")
      case False
      define sk' where "sk' = (if q e then False else sk)"
      have L: "?L sk (e # es) = map_sum id (\<lambda>(es', evs). (e1 # es', evs)) (?L sk' es)"
        using se q1 False
        by (auto simp: sk'_def split: sum.splits prod.splits)
      have R: "?R sk (e # es) = map_sum id (\<lambda>(es', evs). (e1 # es', evs)) (?R sk' es)"
        using se q1 False
        by (auto simp: sk'_def error_unique split: sum.splits prod.splits)
      show ?thesis unfolding L R Cons.IH ..
    next
      case True
      show ?thesis
      proof (cases "f e1")
        case (Inl a)
        have L: "?L sk (e # es) = Inl a"
          using se q1 True Inl by (auto simp: error_unique split: sum.splits prod.splits)
        have "and_then f s e = Inl a"
          using comm[of e] True se Inl by (simp add: and_then_cases(2))
        then have "f e = Inl a \<or> (\<exists>e3 ev. f e = Inr (e3, ev) \<and> s e3 = Inl a)"
          by (auto simp: and_then_def split: sum.splits prod.splits)
        then have "?R sk (e # es) = Inl a" using True
          by (auto simp: error_unique split: sum.splits prod.splits)
        with L show ?thesis by simp
      next
        case fr: (Inr r)
        then obtain e2 ev where fe1: "f e1 = Inr (e2, ev)" by (cases r) auto
        have "and_then s f e = Inr (e2, [] @ ev)"
          using se fe1 by (rule and_then_cases(3))
        then have "and_then f s e = Inr (e2, [] @ ev)"
          using comm[of e] True by simp
        then obtain e3 where fe: "f e = Inr (e3, ev)" and se3: "s e3 = Inr (e2, [])"
          using sil by (auto simp: and_then_def silent_def split: sum.splits prod.splits)
        have q3: "q e2 = q e3" using keep[OF se3] .
        have L: "?L sk (e # es)
            = map_sum id (\<lambda>(es', evs). (e2 # es', ev @ evs)) (?L (\<not> q e2) es)"
          using se q1 True fe1
          by (auto split: sum.splits prod.splits)
        have R: "?R sk (e # es)
            = map_sum id (\<lambda>(es', evs). (e2 # es', ev @ evs)) (?R (\<not> q e2) es)"
          using True fe se3 q3
          by (auto simp: error_unique split: sum.splits prod.splits)
        show ?thesis unfolding L R Cons.IH ..
      qed
    qed
  qed
qed


lemma instruction_calibrate_commute:
  "and_then (instruction_step f) (calibrate_entity sess cam) e
     = and_then (calibrate_entity sess cam) (instruction_step f) e"
  by (auto simp: and_then_def instruction_step_def query_def instruction_entity_def
      calibrate_entity_def split: option.splits)

lemma instruction_first_calibration:
  "then_run (execute_system f InstructionSystem) (execute_system f CalibrationSystem)
     = then_run (execute_system f CalibrationSystem) (execute_system f InstructionSystem)"
proof (rule ext)
  fix w :: world
  let ?s = "instruction_step f"
  let ?c = "calibrate_entity (session f) (xrCamera f)"
  let ?g = "\<lambda>r. case r of Inl err \<Rightarrow> Inl err
      | Inr (es, evs) \<Rightarrow> Inr (w\<lparr>entities := es, events := events w @ evs\<rparr>)"
  have keep: "\<And>e e1. ?s e = Inr (e1, []) \<Longrightarrow> NeedCalibration e1 = NeedCalibration e"
    by (rule instruction_step_marker)
  have comm: "\<And>e. NeedCalibration e \<Longrightarrow> and_then ?s ?c e = and_then ?c ?s e"
    by (rule instruction_calibrate_commute)
  have eq: "(case forEach ?s (entities w) of Inl err \<Rightarrow> Inl err
            | Inr (es1, ev1) \<Rightarrow> forEach_live NeedCalibration ?c False es1)
      = (case forEach_live NeedCalibration ?c False (entities w) of Inl err \<Rightarrow> Inl err
          | Inr (es2, ev2) \<Rightarrow>
              (case forEach ?s es2 of Inl err \<Rightarrow> Inl err | Inr (es3, ev3) \<Rightarrow> Inr (es3, ev2)))"
    by (rule forEach_live_commute[OF instruction_silent keep comm])
  have L: "then_run (execute_system f InstructionSystem) (execute_system f CalibrationSystem) w
      = ?g (case forEach ?s (entities w) of Inl err \<Rightarrow> Inl err
            | Inr (es1, ev1) \<Rightarrow> forEach_live NeedCalibration ?c False es1)"
    using forEach_silent[OF instruction_silent, of f "entities w"]
    by (auto simp: then_run_def execute_system_over over_entities_def over_live_def
        split: sum.splits prod.splits)
  have R: "then_run (execute_system f CalibrationSystem) (execute_system f InstructionSystem) w
      = ?g (case forEach_live NeedCalibration ?c False (entities w) of Inl err \<Rightarrow> Inl err
          | Inr (es2, ev2) \<Rightarrow>
              (case forEach ?s es2 of Inl err \<Rightarrow> Inl err | Inr (es3, ev3) \<Rightarrow> Inr (es3, ev2)))"
    using forEach_silent[OF instruction_silent, of f]
    by (auto simp: then_run_def execute_system_over over_entities_def over_live_def
        split: sum.splits prod.splits)
  show "then_run (execute_system f InstructionSystem) (execute_system f CalibrationSystem) w
     = then_run (execute_system f CalibrationSystem) (execute_system f InstructionSystem) w"
    unfolding L R eq ..
qed

lemma forEach_live_none:
  "\<forall>e\<in>set es. \<not> q e \<Longrightarrow> forEach_live q f sk es = Inr (es, [])"
  by (induction es) auto

lemma forEach_query_none:
  "\<forall>e\<in>set es. \<not> q e \<Longrightarrow> forEach (query q f) es = Inr (es, [])"
  by (induction es) (auto simp: query_def)

lemma forEach_live_idle:
  "(\<And>e. f e = Inr (e, [])) \<Longrightarrow> forEach_live q f False es = Inr (es, [])"
  by (induction es) auto

lemma forEach_live_single:
  "length (filter q es) \<le> 1 \<Longrightarrow> forEach_live q f False es = forEach (query q f) es"
proof (induction es)
  case Nil
  then show ?case by simp
next
  case (Cons e es)
  show ?case
  proof (cases "q e")
    case False
    then show ?thesis using Cons by (simp add: query_def split: sum.splits prod.splits)
  next
    case True
    with Cons.prems have none: "\<forall>x\<in>set es. \<not> q x"
      by (auto simp: filter_empty_conv)
    have a: "forEach (query q f) es = Inr (es, [])"
      using none by (rule forEach_query_none)
    have b: "forEach_live q f sk es = Inr (es, [])" for sk
      using none by (rule forEach_live_none)
    have c: "query q f e = f e" using True by (simp add: query_def)
    show ?thesis using True a b c
      by (simp split: sum.splits prod.splits)
  qed
qed

lemma calibration_single:
  assumes "length (filter NeedCalibration (entities w)) \<le> 1"
  shows "execute_system f CalibrationSystem w = over_entities (calibration_step f) w"
  using forEach_live_single[OF assms]
  by (simp add: over_live_def over_entities_def calibration_step_def)

lemma instruction_first_finger:
  "then_run (execute_system f InstructionSystem) (execute_system f FingerInputSystem)
     = then_run (execute_system f FingerInputSystem) (execute_system f InstructionSystem)"
proof (rule ext)
  fix w
  have "and_then (instruction_step f) (finger_step f)
      = and_then (finger_step f) (instruction_step f)"
    by (rule ext) (rule instruction_finger_commute)
  then show "then_run (execute_system f InstructionSystem) (execute_system f FingerInputSystem) w
     = then_run (execute_system f FingerInputSystem) (execute_system f InstructionSystem) w"
    using over_entities_fuse_left[OF instruction_silent, of f "finger_step f" w]
      over_entities_fuse_right[OF instruction_silent, of "finger_step f" f w]
    by (simp add: execute_system_over)
qed

lemma over_entities_soundAdded:
  "over_entities st (w\<lparr>soundAdded := a\<rparr>)
     = (case over_entities st w of Inl err \<Rightarrow> Inl err | Inr w1 \<Rightarrow> Inr (w1\<lparr>soundAdded := a\<rparr>))"
  by (simp add: over_entities_def split: sum.splits prod.splits)

lemma over_entities_keeps_soundAdded:
  "over_entities st w = Inr w1 \<Longrightarrow> soundAdded w1 = soundAdded w"
  by (auto simp: over_entities_def split: sum.splits prod.splits)

lemma instruction_first_button:
  "then_run (execute_system f InstructionSystem) (execute_system f ButtonSystem)
     = then_run (execute_system f ButtonSystem) (execute_system f InstructionSystem)"
proof (rule ext)
  fix w :: world
  let ?fr = "fresh_sounds f (soundAdded w)"
  let ?w' = "w\<lparr>soundAdded := (soundAdded w \<or> ?fr)\<rparr>"
  have comm: "and_then (instruction_step f) (button_step ?fr)
      = and_then (button_step ?fr) (instruction_step f)"
    by (rule ext) (rule instruction_button_commute)
  have "then_run (execute_system f InstructionSystem) (execute_system f ButtonSystem) w
      = then_run (over_entities (instruction_step f)) (over_entities (button_step ?fr)) ?w'"
    by (auto simp: then_run_def over_entities_soundAdded
        dest: over_entities_keeps_soundAdded split: sum.splits)
  also have "\<dots> = over_entities (and_then (instruction_step f) (button_step ?fr)) ?w'"
    by (rule over_entities_fuse_left[OF instruction_silent])
  also have "\<dots> = over_entities (and_then (button_step ?fr) (instruction_step f)) ?w'"
    by (simp only: comm)
  also have "\<dots> = then_run (over_entities (button_step ?fr)) (over_entities (instruction_step f)) ?w'"
    by (rule over_entities_fuse_right[OF instruction_silent, symmetric])
  also have "\<dots> = then_run (execute_system f ButtonSystem) (execute_system f InstructionSystem) w"
    by (simp add: then_run_def execute_system_over)
  finally show "then_run (execute_system f InstructionSystem) (execute_system f ButtonSystem) w
     = then_run (execute_system f ButtonSystem) (execute_system f InstructionSystem) w" .
qed

lemma instruction_last:
  "execute_systems f [InstructionSystem, CalibrationSystem, ButtonSystem, FingerInputSystem]
     = execute_systems f [CalibrationSystem, ButtonSystem, FingerInputSystem, InstructionSystem]"
proof -
  let ?I = "execute_system f InstructionSystem"
  let ?C = "execute_system f CalibrationSystem"
  let ?B = "execute_system f ButtonSystem"
  let ?F = "execute_system f FingerInputSystem"
  have "then_run ?I (then_run ?C (then_run ?B ?F)) = then_run (then_run ?I ?C) (then_run ?B ?F)"
    by (simp only: then_run_assoc)
  also have "\<dots> = then_run (then_run ?C ?I) (then_run ?B ?F)"
    by (simp only: instruction_first_calibration)
  also have "\<dots> = then_run ?C (then_run (then_run ?I ?B) ?F)"
    by (simp only: then_run_assoc)
  also have "\<dots> = then_run ?C (then_run (then_run ?B ?I) ?F)"
    by (simp only: instruction_first_button)
  also have "\<dots> = then_run ?C (then_run ?B (then_run ?I ?F))"
    by (simp only: then_run_assoc)
  also have "\<dots> = then_run ?C (then_run ?B (then_run ?F ?I))"
    by (simp only: instruction_first_finger)
  finally show ?thesis by (simp only: execute_systems_four)
qed

lemma calibration_silent: "silent (calibration_step f)"
  by (auto simp: silent_def calibration_step_def query_def calibrate_entity_def
      split: if_splits option.splits)

lemma finger_silent: "silent (finger_step f)"
  by (auto simp: silent_def finger_step_def query_def finger_entity_def
      split: if_splits option.splits prod.splits)

lemma forEach_keeps_query:
  assumes "\<And>e e1 ev. s e = Inr (e1, ev) \<Longrightarrow> q e1 = q e"
    and "forEach s es = Inr (es1, evs)"
  shows "map q es1 = map q es"
  using assms(2)
proof (induction es arbitrary: es1 evs)
  case Nil
  then show ?case by simp
next
  case (Cons e es)
  from Cons.prems obtain e1 ev es' evs' where se: "s e = Inr (e1, ev)"
    and rest: "forEach s es = Inr (es', evs')" and es1: "es1 = e1 # es'"
    by (auto split: sum.splits prod.splits)
  have "q e1 = q e" using se by (rule assms(1))
  moreover have "map q es' = map q es" using rest by (rule Cons.IH)
  ultimately show ?case using es1 by simp
qed

lemma length_filter_map: "length (filter q xs) = length (filter (\<lambda>b. b) (map q xs))"
  by (induction xs) auto

text \<open>
  With the systems in the order of their registration, and at most one entity carrying
  the \<open>NeedCalibration\<close> marker (as in the world that \<open>init\<close> builds), a frame of the world
  takes every entity through \<open>entity_frame\<close>; the effects are those of \<open>ButtonSystem\<close>,
  entity by entity.
\<close>

lemma world_execute_by_entity:
  assumes "systems w = [InstructionSystem, CalibrationSystem, ButtonSystem, FingerInputSystem]"
    and one: "length (filter NeedCalibration (entities w)) \<le> 1"
  shows "world_execute f w =
     over_entities (entity_frame f (soundAdded w))
       (w\<lparr>soundAdded := (soundAdded w \<or> fresh_sounds f (soundAdded w))\<rparr>)"
proof -
  let ?fr = "fresh_sounds f (soundAdded w)"
  let ?w' = "w\<lparr>soundAdded := (soundAdded w \<or> ?fr)\<rparr>"
  let ?I = "over_entities (instruction_step f)"
  let ?C = "over_entities (calibration_step f)"
  let ?B = "over_entities (button_step ?fr)"
  let ?F = "over_entities (finger_step f)"
  have "world_execute f w = then_run (execute_system f InstructionSystem)
      (then_run (execute_system f CalibrationSystem)
        (then_run (execute_system f ButtonSystem) (execute_system f FingerInputSystem))) w"
    by (simp add: world_execute_def assms(1) execute_systems_four)
  also have "\<dots> = then_run ?I (then_run ?C (then_run ?B ?F)) ?w'"
  proof (cases "?I w")
    case (Inl a)
    then show ?thesis
      by (simp add: then_run_def execute_system_over(1,3) over_entities_soundAdded)
  next
    case i: (Inr w1)
    have s1: "soundAdded w1 = soundAdded w" using i by (rule over_entities_keeps_soundAdded)
    obtain es1 evs1 where fe: "forEach (instruction_step f) (entities w) = Inr (es1, evs1)"
      and w1: "entities w1 = es1"
      using i by (auto simp: over_entities_def split: sum.splits prod.splits)
    have "map NeedCalibration es1 = map NeedCalibration (entities w)"
      using instruction_step_marker fe by (rule forEach_keeps_query)
    then have "map NeedCalibration (entities w1) = map NeedCalibration (entities w)"
      using w1 by simp
    then have "length (filter NeedCalibration (entities w1))
        = length (filter NeedCalibration (entities w))"
      by (metis length_filter_map)
    then have "length (filter NeedCalibration (entities w1)) \<le> 1"
      using one by simp
    then have cal: "execute_system f CalibrationSystem w1 = ?C w1"
      by (rule calibration_single)
    show ?thesis
    proof (cases "?C w1")
      case (Inl a)
      then show ?thesis using i cal
        by (simp add: then_run_def execute_system_over(1,3) over_entities_soundAdded)
    next
      case c: (Inr w2)
      have s2: "soundAdded w2 = soundAdded w"
        using over_entities_keeps_soundAdded[OF c] s1 by simp
      have "execute_system f ButtonSystem w2
          = ?B (w2\<lparr>soundAdded := (soundAdded w \<or> ?fr)\<rparr>)"
        by (simp add: s2)
      then show ?thesis using i c cal
        by (simp add: then_run_def execute_system_over(1,3) over_entities_soundAdded)
    qed
  qed
  also have "then_run ?B ?F = over_entities (and_then (button_step ?fr) (finger_step f))"
    by (rule ext) (rule over_entities_fuse_right[OF finger_silent])
  also have "then_run ?C (over_entities (and_then (button_step ?fr) (finger_step f)))
      = over_entities (and_then (calibration_step f)
          (and_then (button_step ?fr) (finger_step f)))"
    by (rule ext) (rule over_entities_fuse_left[OF calibration_silent])
  also have "then_run ?I (over_entities (and_then (calibration_step f)
          (and_then (button_step ?fr) (finger_step f))))
      = over_entities (entity_frame f (soundAdded w))"
    unfolding entity_frame_def
    by (rule ext) (rule over_entities_fuse_left[OF instruction_silent])
  finally show ?thesis .
qed

text \<open>
  C3, as amended. Each frame the four systems run in the order of their registration:
  \<open>InstructionSystem\<close> first, then \<open>CalibrationSystem\<close>, then \<open>ButtonSystem\<close>, then
  \<open>FingerInputSystem\<close> last, and the frame of the world is the composition of the four
  system steps in that order. Because \<open>InstructionSystem\<close> emits nothing and only writes
  \<open>visible\<close> flags, which no other system reads or writes, the frame gives the same world
  and the same effects as the order of the specification, with \<open>InstructionSystem\<close> last,
  would.
\<close>

theorem world_execute_registration_order:
  "systems init_world = [InstructionSystem, CalibrationSystem, ButtonSystem, FingerInputSystem]
   \<and> (systems w = systems init_world \<longrightarrow>
        world_execute f w
          = then_run (execute_system f InstructionSystem)
              (then_run (execute_system f CalibrationSystem)
                (then_run (execute_system f ButtonSystem)
                  (execute_system f FingerInputSystem))) w
        \<and> world_execute f w = spec_world_execute f w)"
proof -
  have reg: "systems init_world
      = [InstructionSystem, CalibrationSystem, ButtonSystem, FingerInputSystem]"
    by (simp add: init_world_def registerSystem_def)
  show ?thesis
    unfolding reg world_execute_def spec_world_execute_def spec_pipeline_def
    by (simp add: instruction_last execute_systems_four [symmetric])
qed

theorem world_execute_registration_order_witness:
  "\<exists>w'. world_execute tracked_frame init_world = Inr w'
     \<and> spec_world_execute tracked_frame init_world = Inr w'
     \<and> soundAdded w' \<and> events w' = []
     \<and> map NeedCalibration (entities w') = [False, False, False, False, False, False]"
proof -
  have "world_execute tracked_frame init_world = spec_world_execute tracked_frame init_world"
    using world_execute_registration_order [of init_world tracked_frame] by blast
  moreover have "\<exists>w'. world_execute tracked_frame init_world = Inr w'
     \<and> soundAdded w' \<and> events w' = []
     \<and> map NeedCalibration (entities w') = [False, False, False, False, False, False]"
    by (simp add: world_eval)
  ultimately show ?thesis by auto
qed

text \<open>
  The order the specification states is not the order in which the systems run:
  \<open>InstructionSystem\<close> is registered first, not last, and \<open>FingerInputSystem\<close> is the last.
\<close>

theorem registration_order_differs:
  "systems init_world \<noteq> spec_pipeline
   \<and> hd (systems init_world) = InstructionSystem
   \<and> last (systems init_world) = FingerInputSystem"
  by (simp add: init_world_def registerSystem_def spec_pipeline_def)

section \<open>CalibrationSystem\<close>

text \<open>
  Without a session \<open>CalibrationSystem\<close> changes nothing, and a world in which no entity
  carries the marker is left as it is in every frame.
\<close>

lemma calibration_without_session:
  "\<not> session f \<Longrightarrow> execute_system f CalibrationSystem w = Inr w"
  by (simp add: over_live_def forEach_live_idle calibrate_entity_def)

lemma calibration_unmarked:
  "\<forall>e\<in>set (entities w). \<not> NeedCalibration e \<Longrightarrow> execute_system f CalibrationSystem w = Inr w"
  by (simp add: over_live_def forEach_live_none)


end
